theory Spec2Isabelle
  imports Complex_Main "HOL-Library.Char_ord" "HOL-Library.List_Lexorder" "HOL-Library.Option_ord"
begin

section \<open>Python values and strings\<close>

text \<open>
  The values the importer hands to the field normalizers come from
  \<^verbatim>\<open>row.get(key, default)\<close> on a \<^verbatim>\<open>csv.DictReader\<close> row: a string, \<^verbatim>\<open>None\<close>
  (a short row), or the integer default \<^verbatim>\<open>0\<close> (a missing column).
  A string is a list of characters; a \<^typ>\<open>char\<close> stands for a code point below 256, and
  the Unicode-aware string methods of Python are modelled on that range.
\<close>

datatype pyval = PyNone | PyStr string | PyInt int

datatype py_exc = ValueError | TypeError | OverflowError | ZeroDivisionError
  | OperationalError | IntegrityError | JSONDecodeError | RecursionError

fun digit_chars :: "nat \<Rightarrow> string" where
  "digit_chars n =
     (if n < 10 then [char_of (48 + n)]
      else digit_chars (n div 10) @ [char_of (48 + n mod 10)])"

declare digit_chars.simps [simp del]

definition str_of_int :: "int \<Rightarrow> string" where
  "str_of_int i = (if i < 0 then CHR ''-'' # digit_chars (nat (- i)) else digit_chars (nat i))"

text \<open>\<^verbatim>\<open>str(value)\<close>\<close>

fun py_str :: "pyval \<Rightarrow> string" where
  "py_str PyNone = ''None''"
| "py_str (PyStr s) = s"
| "py_str (PyInt i) = str_of_int i"

text \<open>
  \<^verbatim>\<open>str.isspace\<close> on one character: TAB, LF, VT, FF, CR, the separators 0x1C to 0x1F,
  the space, NEL (0x85) and the no-break space (0xA0).
\<close>

definition is_space :: "char \<Rightarrow> bool" where
  "is_space c = ((of_char c :: nat) \<in> {9, 10, 11, 12, 13, 28, 29, 30, 31, 32, 133, 160})"

text \<open>\<^verbatim>\<open>s.strip()\<close>\<close>

definition py_strip :: "string \<Rightarrow> string" where
  "py_strip s = rev (dropWhile is_space (rev (dropWhile is_space s)))"

text \<open>
  \<^verbatim>\<open>s.lower()\<close>: the letters A to Z and the Latin-1 capitals 0xC0 to 0xDE (the
  multiplication sign 0xD7 is not a letter) move up by 32.
\<close>

definition is_upper :: "char \<Rightarrow> bool" where
  "is_upper c = (let n = (of_char c :: nat) in
     (65 \<le> n \<and> n \<le> 90) \<or> (192 \<le> n \<and> n \<le> 222 \<and> n \<noteq> 215))"

definition lower_char :: "char \<Rightarrow> char" where
  "lower_char c = (if is_upper c then char_of ((of_char c :: nat) + 32) else c)"

definition py_lower :: "string \<Rightarrow> string" where
  "py_lower s = map lower_char s"

text \<open>Case folding of the letters A to Z only (SQLite's LIKE, and a regular
  expression's ASCII literals under \<^verbatim>\<open>re.IGNORECASE\<close>).\<close>

definition ascii_lower :: "char \<Rightarrow> char" where
  "ascii_lower c = (let n = (of_char c :: nat) in
     if 65 \<le> n \<and> n \<le> 90 then char_of (n + 32) else c)"

definition starts_with :: "string \<Rightarrow> string \<Rightarrow> bool" where
  "starts_with p s = (take (length p) s = p)"

text \<open>\<^verbatim>\<open>sub in s\<close>\<close>

fun contains :: "string \<Rightarrow> string \<Rightarrow> bool" where
  "contains sub [] = (sub = [])"
| "contains sub (c # s) = (starts_with sub (c # s) \<or> contains sub s)"

text \<open>
  \<^verbatim>\<open>s.replace(old, new)\<close> for a non-empty \<^verbatim>\<open>old\<close>: the occurrences are found from
  the left and do not overlap. (With an empty \<^verbatim>\<open>old\<close> Python inserts \<^verbatim>\<open>new\<close> around
  every character; the program never does that, and the model leaves the string alone.)
\<close>

function py_replace :: "string \<Rightarrow> string \<Rightarrow> string \<Rightarrow> string" where
  "py_replace old new [] = []"
| "py_replace old new (c # s) =
     (if old \<noteq> [] \<and> starts_with old (c # s)
      then new @ py_replace old new (drop (length old) (c # s))
      else c # py_replace old new s)"
  by pat_completeness auto
termination
  by (relation "measure (\<lambda>(old, new, s). length s)") (auto simp: starts_with_def)

section \<open>The field normalizers (data_processing.py)\<close>

text \<open>\<^verbatim>\<open>clean_boolean\<close>: returns the integers 1 and 0.\<close>

definition clean_boolean :: "pyval \<Rightarrow> int" where
  "clean_boolean v =
     (if v = PyNone then 0
      else let str_value = py_lower (py_strip (py_str v)) in
        if str_value \<in> {''true'', ''1'', ''yes''} then 1 else 0)"

text \<open>
  The substitution of \<^verbatim>\<open>clean_text\<close>:
  \<^verbatim>\<open>re.sub(r',\s*extra,\s*commas\s*$', '', text, flags=re.IGNORECASE)\<close>.
  A match that starts at a comma skips white space, reads \<^verbatim>\<open>extra,\<close>, skips white space,
  reads \<^verbatim>\<open>commas\<close>, and needs the rest of the text to be white space; it then runs to the
  end of the text. The search takes the leftmost start that matches.
\<close>

definition ci_prefix :: "string \<Rightarrow> string \<Rightarrow> bool" where
  "ci_prefix lit s = (map ascii_lower (take (length lit) s) = lit)"

definition match_extra_commas :: "string \<Rightarrow> bool" where
  "match_extra_commas s =
     (case s of
        [] \<Rightarrow> False
      | c # r \<Rightarrow>
          c = CHR '','' \<and>
          (let r1 = dropWhile is_space r in
             ci_prefix ''extra,'' r1 \<and>
             (let r2 = dropWhile is_space (drop 6 r1) in
                ci_prefix ''commas'' r2 \<and> list_all is_space (drop 6 r2))))"

fun re_sub_extra_commas :: "string \<Rightarrow> string" where
  "re_sub_extra_commas [] = []"
| "re_sub_extra_commas (c # s) =
     (if match_extra_commas (c # s) then [] else c # re_sub_extra_commas s)"

definition clean_text :: "pyval \<Rightarrow> string option" where
  "clean_text v =
     (if v = PyNone \<or> v = PyStr [] then None
      else let t0 = py_strip (py_str v);
               t1 = py_replace ''%%'' ''%'' t0;
               t2 = re_sub_extra_commas t1
           in if t2 \<noteq> [] then Some (py_strip t2) else None)"


text \<open>
  \<^verbatim>\<open>clean_email\<close>. The loop \<^verbatim>\<open>while '@@' in email: email = email.replace('@@', '@')\<close>
  is a recursion on the string, which gets shorter with every pass.
\<close>

lemma starts_with_length: "starts_with old s \<Longrightarrow> length old \<le> length s"
proof -
  assume "starts_with old s"
  then have "length (take (length old) s) = length old"
    by (simp add: starts_with_def)
  then show ?thesis by simp
qed

lemma py_replace_not_longer:
  "length new < length old \<Longrightarrow> length (py_replace old new s) \<le> length s"
proof (induction old new s rule: py_replace.induct)
  case (1 old new)
  then show ?case by simp
next
  case (2 old new c s)
  show ?case
  proof (cases "old \<noteq> [] \<and> starts_with old (c # s)")
    case True
    then have "length (py_replace old new (drop (length old) (c # s)))
            \<le> length (c # s) - length old"
      using 2 by simp
    moreover have "length old \<le> length (c # s)"
      using True starts_with_length by blast
    moreover have "py_replace old new (c # s) = new @ py_replace old new (drop (length old) (c # s))"
      using True by simp
    ultimately show ?thesis
      using \<open>length new < length old\<close> by simp
  next
    case False
    then have "py_replace old new (c # s) = c # py_replace old new s" by auto
    moreover have "length (py_replace old new s) \<le> length s"
      using False 2 by blast
    ultimately show ?thesis by simp
  qed
qed

lemma py_replace_shorter:
  "contains old s \<Longrightarrow> length new < length old \<Longrightarrow> length (py_replace old new s) < length s"
proof (induction s)
  case Nil
  then show ?case by simp
next
  case (Cons c s)
  show ?case
  proof (cases "old \<noteq> [] \<and> starts_with old (c # s)")
    case True
    have "length (py_replace old new (drop (length old) (c # s)))
            \<le> length (c # s) - length old"
      using py_replace_not_longer [OF Cons.prems(2), of "drop (length old) (c # s)"] by simp
    moreover have "length old \<le> length (c # s)"
      using True starts_with_length by blast
    moreover have "py_replace old new (c # s) = new @ py_replace old new (drop (length old) (c # s))"
      using True by simp
    ultimately show ?thesis
      using \<open>length new < length old\<close> by simp
  next
    case False
    then have eq: "py_replace old new (c # s) = c # py_replace old new s" by auto
    have "old \<noteq> []" using Cons.prems(2) by auto
    then have "contains old s"
      using False Cons.prems(1) by simp
    then have "length (py_replace old new s) < length s"
      using Cons.IH Cons.prems(2) by blast
    then show ?thesis using eq by simp
  qed
qed

function collapse_double_at :: "string \<Rightarrow> string" where
  "collapse_double_at email =
     (if contains ''@@'' email then collapse_double_at (py_replace ''@@'' ''@'' email)
      else email)"
  by pat_completeness auto
termination
proof (relation "measure length")
  show "wf (measure length)" by simp
next
  fix email :: string
  assume "contains ''@@'' email"
  then have "length (py_replace ''@@'' ''@'' email) < length email"
    by (rule py_replace_shorter) simp
  then show "(py_replace ''@@'' ''@'' email, email) \<in> measure length" by simp
qed

declare collapse_double_at.simps [simp del]

definition clean_email :: "pyval \<Rightarrow> string option" where
  "clean_email v =
     (if v = PyNone \<or> v = PyStr [] then None
      else let email = collapse_double_at (py_lower (py_strip (py_str v)))
           in if email \<noteq> [] then Some email else None)"

text \<open>
  Python floats. \<^verbatim>\<open>float(s)\<close> reads the special values by itself, whatever their case
  and with a sign; the reading of a decimal literal, rounded to a double (an overflowing
  literal such as \<^verbatim>\<open>1e999\<close> gives infinity), belongs to the standard library and is a
  parameter of the model, as are \<^verbatim>\<open>json.loads\<close>, the \<^verbatim>\<open>str\<close> of a float, list or dict,
  and \<^verbatim>\<open>strptime\<close> and \<^verbatim>\<open>strftime\<close>. For \<^verbatim>\<open>float\<close> and \<^verbatim>\<open>strptime\<close>,
  \<^term>\<open>None\<close> stands for \<^verbatim>\<open>ValueError\<close>, the one exception they raise on a string.
  \<^verbatim>\<open>json.loads\<close> returns a value or raises: \<^verbatim>\<open>JSONDecodeError\<close> on a malformed
  text, and also \<^verbatim>\<open>RecursionError\<close> (a text nested too deep) or a plain
  \<^verbatim>\<open>ValueError\<close> (an integer literal with too many digits). The exception classes are
  kept apart: \<^term>\<open>JSONDecodeError\<close> is the class that \<^verbatim>\<open>except json.JSONDecodeError\<close>
  catches, \<^term>\<open>ValueError\<close> a \<^verbatim>\<open>ValueError\<close> that is not of that subclass.
\<close>

datatype pyfloat = Finite rat | PosInf | NegInf | NaN

datatype json = JNull | JBool bool | JInt int | JFloat pyfloat | JStr string
  | JArr "json list" | JObj "(string \<times> json) list"

type_synonym datetime = "nat \<times> nat \<times> nat \<times> nat \<times> nat \<times> nat"

record pylib =
  float_literal :: "string \<Rightarrow> pyfloat option"
  json_loads :: "string \<Rightarrow> py_exc + json"
  repr_json :: "json \<Rightarrow> string"
  strptime :: "string \<Rightarrow> string \<Rightarrow> datetime option"
  strftime :: "datetime \<Rightarrow> string \<Rightarrow> string"

text \<open>
  The white space that \<^verbatim>\<open>float(s)\<close> and \<^verbatim>\<open>int(s)\<close> skip around a number: the
  ASCII white space, and NEL and the no-break space, which they first turn into spaces.
  The separators 0x1C to 0x1F are not skipped: \<^verbatim>\<open>int\<close> raises on the character 0x1C
  followed by \<^verbatim>\<open>3\<close>, a text that \<^verbatim>\<open>strip\<close> turns into \<^verbatim>\<open>3\<close>.
\<close>

definition is_num_space :: "char \<Rightarrow> bool" where
  "is_num_space c = ((of_char c :: nat) \<in> {9, 10, 11, 12, 13, 32, 133, 160})"

definition num_strip :: "string \<Rightarrow> string" where
  "num_strip s = rev (dropWhile is_num_space (rev (dropWhile is_num_space s)))"

definition py_float :: "pylib \<Rightarrow> string \<Rightarrow> pyfloat option" where
  "py_float L s =
     (let t = num_strip s;
          neg = (t \<noteq> [] \<and> hd t = CHR ''-'');
          body = (if t \<noteq> [] \<and> (hd t = CHR ''-'' \<or> hd t = CHR ''+'') then tl t else t);
          lb = map ascii_lower body
      in if lb = ''inf'' \<or> lb = ''infinity'' then Some (if neg then NegInf else PosInf)
         else if lb = ''nan'' then Some NaN
         else float_literal L t)"

text \<open>\<^verbatim>\<open>int(x)\<close> of a float: truncation towards zero; infinity and NaN raise.\<close>

definition int_of_float :: "pyfloat \<Rightarrow> py_exc + int" where
  "int_of_float f =
     (case f of
        Finite r \<Rightarrow> Inr (if 0 \<le> r then \<lfloor>r\<rfloor> else \<lceil>r\<rceil>)
      | NaN \<Rightarrow> Inl ValueError
      | _ \<Rightarrow> Inl OverflowError)"

text \<open>\<^verbatim>\<open>clean_integer\<close>: \<^verbatim>\<open>except (ValueError, TypeError)\<close> lets every other exception
  through.\<close>

definition clean_integer :: "pylib \<Rightarrow> pyval \<Rightarrow> py_exc + int" where
  "clean_integer L v =
     (if v = PyNone \<or> v = PyStr [] then Inr 0
      else case py_float L (py_strip (py_str v)) of
             None \<Rightarrow> Inr 0
           | Some f \<Rightarrow>
               (case int_of_float f of
                  Inl e \<Rightarrow> if e = ValueError \<or> e = TypeError then Inr 0 else Inl e
                | Inr n \<Rightarrow> Inr n))"

definition clean_float :: "pylib \<Rightarrow> pyval \<Rightarrow> pyfloat" where
  "clean_float L v =
     (if v = PyNone \<or> v = PyStr [] then Finite 0
      else case py_float L (py_strip (py_str v)) of
             None \<Rightarrow> Finite 0
           | Some f \<Rightarrow> f)"

definition clean_datetime :: "pylib \<Rightarrow> pyval \<Rightarrow> string option" where
  "clean_datetime L v =
     (if v = PyNone \<or> v = PyStr [] then None
      else case strptime L (py_strip (py_str v)) ''%Y-%m-%d %H:%M:%S'' of
             Some dt \<Rightarrow> Some (strftime L dt ''%Y-%m-%d %H:%M:%S'')
           | None \<Rightarrow>
               (case strptime L (py_strip (py_str v)) ''%Y-%m-%d'' of
                  Some dt \<Rightarrow> Some (strftime L dt ''%Y-%m-%d 00:00:00'')
                | None \<Rightarrow> None))"

definition clean_location :: "pyval \<Rightarrow> string option" where
  "clean_location v =
     (if v = PyNone \<or> v = PyStr [] \<or> py_lower (py_strip (py_str v)) = ''null'' then None
      else Some (py_strip (py_str v)))"

text \<open>\<^verbatim>\<open>str(tag)\<close> of an element of a decoded JSON array.\<close>

definition str_json :: "pylib \<Rightarrow> json \<Rightarrow> string" where
  "str_json L j =
     (case j of
        JStr s \<Rightarrow> s
      | JNull \<Rightarrow> ''None''
      | JBool b \<Rightarrow> (if b then ''True'' else ''False'')
      | JInt i \<Rightarrow> str_of_int i
      | _ \<Rightarrow> repr_json L j)"

text \<open>The loop of \<^verbatim>\<open>parse_tags\<close> over the decoded list, with \<^verbatim>\<open>cleaned_tags\<close> as
  its accumulator.\<close>

fun collect_tags :: "pylib \<Rightarrow> json list \<Rightarrow> string list \<Rightarrow> string list" where
  "collect_tags L [] cleaned_tags = cleaned_tags"
| "collect_tags L (t # ts) cleaned_tags =
     (let tag = py_strip (str_json L t) in
        collect_tags L ts
          (if tag \<noteq> [] \<and> tag \<notin> set cleaned_tags then cleaned_tags @ [tag]
           else cleaned_tags))"

text \<open>\<^verbatim>\<open>parse_tags\<close>: \<^verbatim>\<open>except json.JSONDecodeError\<close> lets every other exception of
  \<^verbatim>\<open>json.loads\<close> through.\<close>

definition parse_tags :: "pylib \<Rightarrow> pyval \<Rightarrow> py_exc + string list" where
  "parse_tags L v =
     (if v = PyNone \<or> v = PyStr [] then Inr []
      else case json_loads L (py_str v) of
             Inl e \<Rightarrow> if e = JSONDecodeError then Inr [] else Inl e
           | Inr (JArr tags) \<Rightarrow> Inr (collect_tags L tags [])
           | Inr _ \<Rightarrow> Inr [])"

section \<open>The relational store\<close>

text \<open>
  The three tables of \<^verbatim>\<open>create_database_schema\<close>, each a list of rows in rowid order.
  The columns \<^verbatim>\<open>created_at\<close> and the row id of \<^verbatim>\<open>post_tags\<close> are left out: the
  program never reads them. \<^verbatim>\<open>author_seq\<close> is the AUTOINCREMENT counter of
  \<^verbatim>\<open>authors\<close>. A NULL is \<^term>\<open>None\<close>.
\<close>

record author =
  a_id :: int
  a_first_name :: string
  a_last_name :: string
  a_email :: string
  a_company :: "string option"
  a_job_title :: "string option"
  a_bio :: "string option"
  a_follower_count :: int
  a_verified :: int

record post =
  p_id :: int
  p_author_id :: int
  p_text :: "string option"
  p_date :: "string option"
  p_likes :: int
  p_comments :: int
  p_shares :: int
  p_total_engagements :: int
  p_engagement_rate :: "pyfloat option"
  p_image_svg :: "string option"
  p_category :: "string option"
  p_location :: "string option"

record store =
  authors :: "author list"
  author_seq :: int
  posts :: "post list"
  post_tags :: "(int \<times> string) list"

definition empty_store :: store where
  "empty_store = \<lparr>authors = [], author_seq = 0, posts = [], post_tags = []\<rparr>"

text \<open>The sqlite3 module binds a Python integer as a 64-bit value and raises
  \<^verbatim>\<open>OverflowError\<close> for any other; it binds a NaN as NULL.\<close>

definition sqlite_int_ok :: "int \<Rightarrow> bool" where
  "sqlite_int_ok i = (- (2 ^ 63) \<le> i \<and> i < 2 ^ 63)"

definition sql_real :: "pyfloat \<Rightarrow> pyfloat option" where
  "sql_real f = (if f = NaN then None else Some f)"

definition bind_exc :: "'e + 'a \<Rightarrow> ('a \<Rightarrow> 'e + 'b) \<Rightarrow> 'e + 'b" where
  "bind_exc m f = (case m of Inl e \<Rightarrow> Inl e | Inr x \<Rightarrow> f x)"

text \<open>\<^verbatim>\<open>SELECT id FROM authors WHERE email = ?\<close>\<close>

definition select_author_id :: "store \<Rightarrow> string \<Rightarrow> int option" where
  "select_author_id st e = map_option a_id (find (\<lambda>a. a_email a = e) (authors st))"

text \<open>
  \<^verbatim>\<open>INSERT OR IGNORE INTO authors\<close>: a row that breaks \<^verbatim>\<open>NOT NULL\<close> (first and last
  name) or \<^verbatim>\<open>UNIQUE\<close> (email) is skipped; the id that AUTOINCREMENT had drawn for it
  is spent all the same.
\<close>

definition insert_or_ignore_author ::
  "store \<Rightarrow> string option \<Rightarrow> string option \<Rightarrow> string \<Rightarrow> string option \<Rightarrow> string option
     \<Rightarrow> string option \<Rightarrow> int \<Rightarrow> int \<Rightarrow> py_exc + store" where
  "insert_or_ignore_author st fname lname e co jt b fc ver =
     (if \<not> (sqlite_int_ok fc \<and> sqlite_int_ok ver) then Inl OverflowError
      else case (fname, lname) of
             (Some f, Some l) \<Rightarrow>
               if e \<in> a_email ` set (authors st)
               then Inr (st\<lparr>author_seq := author_seq st + 1\<rparr>)
               else Inr (st\<lparr>authors := authors st @
                           [\<lparr>a_id = author_seq st + 1, a_first_name = f, a_last_name = l,
                             a_email = e, a_company = co, a_job_title = jt, a_bio = b,
                             a_follower_count = fc, a_verified = ver\<rparr>],
                         author_seq := author_seq st + 1\<rparr>)
           | _ \<Rightarrow> Inr (st\<lparr>author_seq := author_seq st + 1\<rparr>))"

text \<open>\<^verbatim>\<open>INSERT OR REPLACE INTO posts\<close>: a row with the same id is deleted first. The
  rows of the table stay in the order of their ids.\<close>

definition insert_or_replace_post :: "store \<Rightarrow> post \<Rightarrow> py_exc + store" where
  "insert_or_replace_post st p =
     (if \<not> (sqlite_int_ok (p_id p) \<and> sqlite_int_ok (p_author_id p) \<and> sqlite_int_ok (p_likes p)
             \<and> sqlite_int_ok (p_comments p) \<and> sqlite_int_ok (p_shares p)
             \<and> sqlite_int_ok (p_total_engagements p))
      then Inl OverflowError
      else Inr (st\<lparr>posts := insort_key p_id p (filter (\<lambda>q. p_id q \<noteq> p_id p) (posts st))\<rparr>))"

text \<open>\<^verbatim>\<open>INSERT INTO post_tags (post_id, tag) VALUES (?, ?)\<close>\<close>

definition insert_tag :: "store \<Rightarrow> int \<Rightarrow> string \<Rightarrow> store" where
  "insert_tag st pid tag = st\<lparr>post_tags := post_tags st @ [(pid, tag)]\<rparr>"

section \<open>The importer (import_data)\<close>

text \<open>The counters of \<^verbatim>\<open>stats\<close>; those of \<^verbatim>\<open>stats['issues_fixed']\<close> stand beside
  the others under their own keys.\<close>

record stats =
  total_rows :: nat
  authors_created :: nat
  posts_created :: nat
  tags_created :: nat
  boolean_inconsistency :: nat
  double_percent :: nat
  extra_commas :: nat
  null_locations :: nat
  missing_images :: nat
  duplicate_tags :: nat
  double_at_emails :: nat

definition stats0 :: stats where
  "stats0 = \<lparr>total_rows = 0, authors_created = 0, posts_created = 0, tags_created = 0,
     boolean_inconsistency = 0, double_percent = 0, extra_commas = 0, null_locations = 0,
     missing_images = 0, duplicate_tags = 0, double_at_emails = 0\<rparr>"

text \<open>\<^verbatim>\<open>row.get(key, default)\<close>\<close>

definition row_get :: "(string \<rightharpoonup> pyval) \<Rightarrow> string \<Rightarrow> pyval \<Rightarrow> pyval" where
  "row_get row k d = (case row k of None \<Rightarrow> d | Some v \<Rightarrow> v)"

text \<open>The local variables of one pass of the loop, after the part headed
  \<^verbatim>\<open>CLEAN THE DATA\<close>.\<close>

record cleaned =
  c_first_name :: "string option"
  c_last_name :: "string option"
  c_email :: "string option"
  c_company :: "string option"
  c_job_title :: "string option"
  c_bio :: "string option"
  c_follower_count :: int
  c_verified :: int
  c_post_id :: int
  c_post_text :: "string option"
  c_post_date :: "string option"
  c_likes :: int
  c_comments :: int
  c_shares :: int
  c_total_engagements :: int
  c_engagement_rate :: pyfloat
  c_image_svg :: "string option"
  c_category :: "string option"
  c_location :: "string option"
  c_tags :: "string list"

definition count_if :: "bool \<Rightarrow> nat \<Rightarrow> nat" where
  "count_if b n = (if b then n + 1 else n)"

definition clean_row :: "pylib \<Rightarrow> stats \<Rightarrow> (string \<rightharpoonup> pyval) \<Rightarrow> py_exc + (cleaned \<times> stats)" where
  "clean_row L sts row =
     (let raw_email = row_get row ''author_email'' (PyStr []);
          raw_verified = row_get row ''author_verified'' (PyStr []);
          raw_text = row_get row ''post_text'' (PyStr []);
          raw_location = row_get row ''location'' (PyStr []);
          raw_tags = row_get row ''post_tags'' (PyStr []);
          image_svg = clean_text (row_get row ''post_image_svg'' (PyStr []))
      in
      bind_exc (clean_integer L (row_get row ''author_follower_count'' (PyInt 0))) (\<lambda>follower_count.
      bind_exc (clean_integer L (row_get row ''post_id'' (PyInt 0))) (\<lambda>post_id.
      bind_exc (clean_integer L (row_get row ''likes'' (PyInt 0))) (\<lambda>likes.
      bind_exc (clean_integer L (row_get row ''comments'' (PyInt 0))) (\<lambda>comments.
      bind_exc (clean_integer L (row_get row ''shares'' (PyInt 0))) (\<lambda>shares.
      bind_exc (clean_integer L (row_get row ''total_engagements'' (PyInt 0))) (\<lambda>total_engagements.
      bind_exc (parse_tags L raw_tags) (\<lambda>tags.
      Inr (\<lparr>c_first_name = clean_text (row_get row ''author_first_name'' (PyStr [])),
             c_last_name = clean_text (row_get row ''author_last_name'' (PyStr [])),
             c_email = clean_email raw_email,
             c_company = clean_text (row_get row ''author_company'' (PyStr [])),
             c_job_title = clean_text (row_get row ''author_job_title'' (PyStr [])),
             c_bio = clean_text (row_get row ''author_bio'' (PyStr [])),
             c_follower_count = follower_count,
             c_verified = clean_boolean raw_verified,
             c_post_id = post_id,
             c_post_text = clean_text raw_text,
             c_post_date = clean_datetime L (row_get row ''post_date'' (PyStr [])),
             c_likes = likes,
             c_comments = comments,
             c_shares = shares,
             c_total_engagements = total_engagements,
             c_engagement_rate = clean_float L (row_get row ''engagement_rate'' (PyInt 0)),
             c_image_svg = image_svg,
             c_category = clean_text (row_get row ''post_category'' (PyStr [])),
             c_location = clean_location raw_location,
             c_tags = tags\<rparr>,
           sts\<lparr>total_rows := total_rows sts + 1,
               double_at_emails :=
                 count_if (contains ''@@'' (py_str raw_email)) (double_at_emails sts),
               boolean_inconsistency :=
                 count_if (py_lower (py_str raw_verified) \<notin> {''true'', ''false'', ''0'', ''1'', []})
                   (boolean_inconsistency sts),
               double_percent :=
                 count_if (contains ''%%'' (py_str raw_text)) (double_percent sts),
               extra_commas :=
                 count_if (contains ''extra, commas'' (py_lower (py_str raw_text)))
                   (extra_commas sts),
               missing_images :=
                 count_if (image_svg = None \<or> image_svg = Some []) (missing_images sts),
               null_locations :=
                 count_if (py_lower (py_strip (py_str raw_location)) \<in> {''null'', []})
                   (null_locations sts)\<rparr>)))))))))"

text \<open>The state of the loop: the store, \<^verbatim>\<open>authors_cache\<close> and \<^verbatim>\<open>stats\<close>.\<close>

record import_state =
  i_store :: store
  authors_cache :: "string \<rightharpoonup> int"
  i_stats :: stats

text \<open>Step 3 of the loop body: the tags of the row, with \<^verbatim>\<open>seen_tags\<close>.\<close>

fun insert_tags :: "int \<Rightarrow> string list \<Rightarrow> string set \<Rightarrow> store \<times> stats \<Rightarrow> store \<times> stats" where
  "insert_tags post_id [] seen_tags acc = acc"
| "insert_tags post_id (tag # tags) seen_tags (st, sts) =
     (if tag \<notin> seen_tags
      then insert_tags post_id tags (insert tag seen_tags)
             (insert_tag st post_id tag, sts\<lparr>tags_created := tags_created sts + 1\<rparr>)
      else insert_tags post_id tags seen_tags
             (st, sts\<lparr>duplicate_tags := duplicate_tags sts + 1\<rparr>))"

text \<open>Step 1: the author of the row, looked up in the cache or inserted.\<close>

definition resolve_author :: "cleaned \<Rightarrow> import_state \<Rightarrow> py_exc + import_state" where
  "resolve_author c s =
     (case c_email c of
        None \<Rightarrow> Inr s
      | Some e \<Rightarrow>
          if e \<noteq> [] \<and> authors_cache s e = None then
            bind_exc (insert_or_ignore_author (i_store s) (c_first_name c) (c_last_name c) e
                        (c_company c) (c_job_title c) (c_bio c) (c_follower_count c)
                        (c_verified c))
              (\<lambda>st. case select_author_id st e of
                       Some i \<Rightarrow>
                         Inr (s\<lparr>i_store := st,
                                authors_cache := (authors_cache s)(e \<mapsto> i),
                                i_stats := (i_stats s)\<lparr>authors_created :=
                                              authors_created (i_stats s) + 1\<rparr>\<rparr>)
                     | None \<Rightarrow> Inr (s\<lparr>i_store := st\<rparr>))
          else Inr s)"

definition post_of_cleaned :: "cleaned \<Rightarrow> int \<Rightarrow> post" where
  "post_of_cleaned c aid =
     \<lparr>p_id = c_post_id c, p_author_id = aid, p_text = c_post_text c, p_date = c_post_date c,
      p_likes = c_likes c, p_comments = c_comments c, p_shares = c_shares c,
      p_total_engagements = c_total_engagements c,
      p_engagement_rate = sql_real (c_engagement_rate c), p_image_svg = c_image_svg c,
      p_category = c_category c, p_location = c_location c\<rparr>"

text \<open>One pass of the loop \<^verbatim>\<open>for row in reader\<close>. An exception leaves the loop and
  \<^verbatim>\<open>import_data\<close>.\<close>

definition import_row :: "pylib \<Rightarrow> import_state \<Rightarrow> (string \<rightharpoonup> pyval) \<Rightarrow> py_exc + import_state" where
  "import_row L s row =
     bind_exc (clean_row L (i_stats s) row) (\<lambda>(c, sts).
     bind_exc (resolve_author c (s\<lparr>i_stats := sts\<rparr>)) (\<lambda>s1.
       case (case c_email c of None \<Rightarrow> None | Some e \<Rightarrow> authors_cache s1 e) of
         None \<Rightarrow> Inr s1
       | Some author_id \<Rightarrow>
           bind_exc (insert_or_replace_post (i_store s1) (post_of_cleaned c author_id)) (\<lambda>st.
             let sts1 = (i_stats s1)\<lparr>posts_created := posts_created (i_stats s1) + 1\<rparr>;
                 (st2, sts2) = insert_tags (c_post_id c) (c_tags c) {} (st, sts1)
             in Inr (s1\<lparr>i_store := st2, i_stats := sts2\<rparr>))))"

fun import_rows :: "pylib \<Rightarrow> import_state \<Rightarrow> (string \<rightharpoonup> pyval) list \<Rightarrow> py_exc + import_state" where
  "import_rows L s [] = Inr s"
| "import_rows L s (row # rows) = bind_exc (import_row L s row) (\<lambda>s1. import_rows L s1 rows)"

text \<open>\<^verbatim>\<open>import_data(conn, csv_path)\<close> on the rows that \<^verbatim>\<open>csv.DictReader\<close> yields
  (their keys are the cleaned headers): the store after the commit, and \<^verbatim>\<open>stats\<close>.\<close>

definition import_data :: "pylib \<Rightarrow> store \<Rightarrow> (string \<rightharpoonup> pyval) list \<Rightarrow> py_exc + (store \<times> stats)" where
  "import_data L st rows =
     bind_exc (import_rows L \<lparr>i_store = st, authors_cache = Map.empty, i_stats = stats0\<rparr> rows)
       (\<lambda>s. Inr (i_store s, i_stats s))"

section \<open>The query service (app.py)\<close>

text \<open>
  What a handler sees of the world: the database file (\<^term>\<open>None\<close> when it holds no
  tables, as before the import job has run: \<^verbatim>\<open>init_db\<close> only prints a warning, and
  \<^verbatim>\<open>sqlite3.connect\<close> creates the file) and the number of connections that were opened
  and not closed.
\<close>

record world =
  db :: "store option"
  open_conns :: nat

definition get_db_connection :: "world \<Rightarrow> world" where
  "get_db_connection w = w\<lparr>open_conns := open_conns w + 1\<rparr>"

definition conn_close :: "world \<Rightarrow> world" where
  "conn_close w = w\<lparr>open_conns := open_conns w - 1\<rparr>"

text \<open>\<^verbatim>\<open>int(s)\<close> of a string: white space around, a sign, decimal digits, single
  underscores between digits; \<^term>\<open>None\<close> stands for \<^verbatim>\<open>ValueError\<close>, which is also
  raised for more than 4300 digits (the default of \<^verbatim>\<open>sys.set_int_max_str_digits\<close>).\<close>

definition is_digit :: "char \<Rightarrow> bool" where
  "is_digit c = (48 \<le> (of_char c :: nat) \<and> (of_char c :: nat) \<le> 57)"

definition digit_val :: "char \<Rightarrow> nat" where
  "digit_val c = of_char c - 48"

fun parse_digits :: "string \<Rightarrow> nat \<Rightarrow> nat option" where
  "parse_digits [] acc = Some acc"
| "parse_digits (c # cs) acc =
     (if is_digit c then parse_digits cs (10 * acc + digit_val c)
      else if c = CHR ''_'' \<and> cs \<noteq> [] \<and> is_digit (hd cs) then parse_digits cs acc
      else None)"

definition py_int :: "string \<Rightarrow> int option" where
  "py_int s =
     (let t = num_strip s;
          neg = (t \<noteq> [] \<and> hd t = CHR ''-'');
          body = (if t \<noteq> [] \<and> (hd t = CHR ''-'' \<or> hd t = CHR ''+'') then tl t else t)
      in case body of
           [] \<Rightarrow> None
         | c # cs \<Rightarrow>
             if is_digit c \<and> length (filter is_digit body) \<le> 4300
             then map_option (\<lambda>n. if neg then - int n else int n) (parse_digits cs (digit_val c))
             else None)"

text \<open>SQLite's \<^verbatim>\<open>LIKE\<close>: \<^verbatim>\<open>%\<close> stands for any run of characters, \<^verbatim>\<open>_\<close> for any one
  character, and the letters A to Z match in either case. A NULL matches nothing.\<close>

fun like_match :: "string \<Rightarrow> string \<Rightarrow> bool" where
  "like_match [] s = (s = [])"
| "like_match (p # ps) [] = (p = CHR ''%'' \<and> like_match ps [])"
| "like_match (p # ps) (c # cs) =
     (if p = CHR ''%'' then like_match ps (c # cs) \<or> like_match (p # ps) cs
      else (p = CHR ''_'' \<or> ascii_lower p = ascii_lower c) \<and> like_match ps cs)"

text \<open>
  SQLite refuses a \<^verbatim>\<open>LIKE\<close> pattern of more than 50000 bytes (\<^verbatim>\<open>LIKE or GLOB pattern
  too complex\<close>) when it evaluates the \<^verbatim>\<open>LIKE\<close>. A character from 128 on takes two bytes
  in the encoding of the database.
\<close>

definition utf8_length :: "string \<Rightarrow> nat" where
  "utf8_length s = length s + length (filter (\<lambda>c. 128 \<le> (of_char c :: nat)) s)"

definition like_too_complex :: "string \<Rightarrow> bool" where
  "like_too_complex pat = (50000 < utf8_length pat)"

definition sql_like :: "string \<Rightarrow> string option \<Rightarrow> bool" where
  "sql_like pat v = (case v of None \<Rightarrow> False | Some s \<Rightarrow> like_match pat s)"

text \<open>\<^verbatim>\<open>FROM posts p JOIN authors a ON p.author_id = a.id\<close>\<close>

definition joined :: "store \<Rightarrow> (post \<times> author) list" where
  "joined st =
     concat (map (\<lambda>p. map (\<lambda>a. (p, a)) (filter (\<lambda>a. a_id a = p_author_id p) (authors st)))
               (posts st))"

text \<open>The \<^verbatim>\<open>WHERE\<close> clause that \<^verbatim>\<open>get_posts\<close> builds, for the main query and for the
  count query alike: the conditions on the post alone (category and dates), and the search.
  Texts compare byte by byte; a NULL date passes no comparison.\<close>

definition post_filters :: "string \<Rightarrow> string \<Rightarrow> string \<Rightarrow> post \<Rightarrow> bool" where
  "post_filters categ date_from date_to p =
     ((if categ \<noteq> [] then p_category p = Some categ else True)
      \<and> (if date_from \<noteq> []
         then (case p_date p of None \<Rightarrow> False | Some d \<Rightarrow> date_from \<le> d) else True)
      \<and> (if date_to \<noteq> []
         then (case p_date p of None \<Rightarrow> False | Some d \<Rightarrow> d \<le> date_to @ '' 23:59:59'')
         else True))"

definition row_matches :: "string \<Rightarrow> string \<Rightarrow> string \<Rightarrow> string \<Rightarrow> post \<times> author \<Rightarrow> bool" where
  "row_matches search categ date_from date_to r =
     (case r of (p, a) \<Rightarrow>
        (if search \<noteq> []
         then (let search_param = ''%'' @ search @ ''%'' in
                 sql_like search_param (p_text p) \<or> like_match search_param (a_first_name a)
                 \<or> like_match search_param (a_last_name a)
                 \<or> like_match search_param (a_first_name a @ '' '' @ a_last_name a))
         else True)
        \<and> post_filters categ date_from date_to p)"

text \<open>
  The search condition reads the author, so SQLite evaluates it, and so meets a pattern
  that is too long, on the joined rows whose post passes the conditions on the post alone:
  with such a pattern a query raises as soon as there is one such row.
\<close>

definition like_raises :: "string \<Rightarrow> string \<Rightarrow> string \<Rightarrow> string \<Rightarrow> store \<Rightarrow> bool" where
  "like_raises search categ date_from date_to st =
     (search \<noteq> [] \<and> like_too_complex (''%'' @ search @ ''%'')
      \<and> filter (\<lambda>r. post_filters categ date_from date_to (fst r)) (joined st) \<noteq> [])"

text \<open>
  \<^verbatim>\<open>ORDER BY\<close>: a NULL sorts before every text. SQLite leaves the order of rows with
  equal keys open. The model takes the order it gives on this schema when it walks the
  index on \<^verbatim>\<open>posts(date)\<close>: forwards for \<^verbatim>\<open>ASC\<close>, posts of one date by ascending id,
  and backwards for \<^verbatim>\<open>DESC\<close>, posts of one date by descending id. Likes and comments
  have no index: rows with equal counts keep the order of the table.
\<close>

definition sort_desc :: "('a \<Rightarrow> 'k::linorder) \<Rightarrow> 'a list \<Rightarrow> 'a list" where
  "sort_desc k xs = rev (sort_key k (rev xs))"

definition order_rows :: "string \<Rightarrow> (post \<times> author) list \<Rightarrow> (post \<times> author) list" where
  "order_rows sort_by rows =
     (if sort_by = ''oldest'' then sort_key (\<lambda>r. p_date (fst r)) rows
      else if sort_by = ''mostLiked'' then sort_desc (\<lambda>r. p_likes (fst r)) rows
      else if sort_by = ''mostCommented'' then sort_desc (\<lambda>r. p_comments (fst r)) rows
      else rev (sort_key (\<lambda>r. p_date (fst r)) rows))"

text \<open>\<^verbatim>\<open>LIMIT ? OFFSET ?\<close>: a negative offset counts as 0, a negative limit as none.\<close>

definition sql_limit_offset :: "int \<Rightarrow> int \<Rightarrow> 'a list \<Rightarrow> 'a list" where
  "sql_limit_offset lmt off xs =
     (let ys = drop (nat off) xs in if lmt < 0 then ys else take (nat lmt) ys)"

text \<open>\<^verbatim>\<open>SELECT tag FROM post_tags WHERE post_id = ?\<close>\<close>

definition tags_of :: "store \<Rightarrow> int \<Rightarrow> string list" where
  "tags_of st pid = map snd (filter (\<lambda>r. fst r = pid) (post_tags st))"

record post_view =
  v_post :: post
  v_author :: author
  v_tags :: "string list"

record pagination =
  currentPage :: int
  totalPages :: int
  totalPosts :: int
  postsPerPage :: int
  hasNext :: bool
  hasPrev :: bool

datatype body = Error string | ErrorExc py_exc | PostsPage "post_view list" pagination
  | Created int | Message string

type_synonym response = "nat \<times> body"

text \<open>The query parameters of \<^verbatim>\<open>GET /api/posts\<close>; \<^term>\<open>None\<close> for one that the
  request does not carry.\<close>

record posts_args =
  arg_search :: "string option"
  arg_category :: "string option"
  arg_dateFrom :: "string option"
  arg_dateTo :: "string option"
  arg_sortBy :: "string option"
  arg_page :: "string option"
  arg_limit :: "string option"

definition arg_or :: "string option \<Rightarrow> string \<Rightarrow> string" where
  "arg_or a d = (case a of None \<Rightarrow> d | Some s \<Rightarrow> s)"

text \<open>\<^verbatim>\<open>int(request.args.get(key, default))\<close>\<close>

definition arg_int :: "string option \<Rightarrow> int \<Rightarrow> int option" where
  "arg_int a d = (case a of None \<Rightarrow> Some d | Some s \<Rightarrow> py_int s)"

definition get_posts :: "world \<Rightarrow> posts_args \<Rightarrow> response \<times> world" where
  "get_posts w args =
     (let search = py_strip (arg_or (arg_search args) []);
          categ = py_strip (arg_or (arg_category args) []);
          date_from = py_strip (arg_or (arg_dateFrom args) []);
          date_to = py_strip (arg_or (arg_dateTo args) []);
          sort_by = py_strip (arg_or (arg_sortBy args) ''newest'')
      in case arg_int (arg_page args) 1 of
           None \<Rightarrow> ((500, ErrorExc ValueError), w)
         | Some page \<Rightarrow>
        (case arg_int (arg_limit args) 10 of
           None \<Rightarrow> ((500, ErrorExc ValueError), w)
         | Some limit \<Rightarrow>
        (let w1 = get_db_connection w in
         case db w1 of
           None \<Rightarrow> ((500, ErrorExc OperationalError), w1)
         | Some st \<Rightarrow>
        (let matching = filter (row_matches search categ date_from date_to) (joined st);
             total_count = int (length matching);
             offset = (page - 1) * limit
         in if like_raises search categ date_from date_to st
            then ((500, ErrorExc OperationalError), w1)
            else if \<not> (sqlite_int_ok limit \<and> sqlite_int_ok offset)
            then ((500, ErrorExc OverflowError), w1)
            else
        (let rows = sql_limit_offset limit offset (order_rows sort_by matching);
             page_posts = map (\<lambda>r. \<lparr>v_post = fst r, v_author = snd r,
                                     v_tags = tags_of st (p_id (fst r))\<rparr>) rows;
             w2 = conn_close w1
         in if limit = 0 then ((500, ErrorExc ZeroDivisionError), w2)
            else ((200, PostsPage page_posts
                     \<lparr>currentPage = page,
                      totalPages = (total_count + limit - 1) div limit,
                      totalPosts = total_count,
                      postsPerPage = limit,
                      hasNext = (page < (total_count + limit - 1) div limit),
                      hasPrev = (page > 1)\<rparr>), w2))))))"

text \<open>
  The body of \<^verbatim>\<open>POST /api/posts\<close> and of \<^verbatim>\<open>PUT /api/posts/:id\<close>: a JSON object whose
  fields, where present, have the types of the handlers' docstrings (texts, and a list of
  texts for \<^verbatim>\<open>tags\<close>).
\<close>

record create_body =
  authorEmail :: "string option"
  content :: "string option"
  imageSvg :: "string option"
  b_category :: "string option"
  b_location :: "string option"
  b_tags :: "string list option"

text \<open>\<^verbatim>\<open>SELECT MAX(id) as max_id FROM posts\<close>\<close>

definition select_max_id :: "store \<Rightarrow> int option" where
  "select_max_id st =
     (case posts st of [] \<Rightarrow> None | p # ps \<Rightarrow> Some (fold max (map p_id ps) (p_id p)))"

text \<open>\<^verbatim>\<open>INSERT INTO posts\<close>: the primary key refuses a second row with the same id.\<close>

definition insert_post :: "store \<Rightarrow> post \<Rightarrow> py_exc + store" where
  "insert_post st p =
     (if \<not> (sqlite_int_ok (p_id p) \<and> sqlite_int_ok (p_author_id p)) then Inl OverflowError
      else if p_id p \<in> p_id ` set (posts st) then Inl IntegrityError
      else Inr (st\<lparr>posts := insort_key p_id p (posts st)\<rparr>))"

definition insert_all_tags :: "store \<Rightarrow> int \<Rightarrow> string list \<Rightarrow> store" where
  "insert_all_tags st pid tags = fold (\<lambda>tag s. insert_tag s pid tag) tags st"

text \<open>\<^verbatim>\<open>create_post\<close>; \<^verbatim>\<open>now\<close> is the formatted reading of the clock.\<close>

definition create_post :: "string \<Rightarrow> world \<Rightarrow> create_body \<Rightarrow> response \<times> world" where
  "create_post now w data =
     (if authorEmail data = None \<or> authorEmail data = Some []
      then ((400, Error ''Author email is required''), w)
      else if content data = None \<or> content data = Some []
      then ((400, Error ''Content is required''), w)
      else
        (let w1 = get_db_connection w in
         case db w1 of
           None \<Rightarrow> ((500, ErrorExc OperationalError), w1)
         | Some st \<Rightarrow>
             (case select_author_id st (the (authorEmail data)) of
                None \<Rightarrow> ((404, Error ''Author not found''), conn_close w1)
              | Some author_id \<Rightarrow>
                  (let max_id = (case select_max_id st of None \<Rightarrow> 0 | Some m \<Rightarrow> m);
                       new_id = max_id + 1
                   in case insert_post st
                        \<lparr>p_id = new_id, p_author_id = author_id, p_text = content data,
                         p_date = Some now, p_likes = 0, p_comments = 0, p_shares = 0,
                         p_total_engagements = 0, p_engagement_rate = Some (Finite 0),
                         p_image_svg = Some (arg_or (imageSvg data) []),
                         p_category = Some (arg_or (b_category data) []),
                         p_location = Some (arg_or (b_location data) [])\<rparr> of
                        Inl e \<Rightarrow> ((500, ErrorExc e), w1)
                      | Inr st1 \<Rightarrow>
                          (let tags = (case b_tags data of None \<Rightarrow> [] | Some ts \<Rightarrow> ts);
                               st2 = insert_all_tags st1 new_id tags
                           in ((201, Created new_id),
                               conn_close (w1\<lparr>db := Some st2\<rparr>)))))))"

record update_body =
  u_content :: "string option"
  u_category :: "string option"
  u_location :: "string option"
  u_imageSvg :: "string option"
  u_tags :: "string list option"

definition set_field :: "'a option \<Rightarrow> 'a option \<Rightarrow> 'a option" where
  "set_field new old = (case new of None \<Rightarrow> old | Some x \<Rightarrow> Some x)"

text \<open>\<^verbatim>\<open>update_post\<close>: only the supplied fields change; supplied tags replace the
  tags of the post.\<close>

definition update_post :: "world \<Rightarrow> int \<Rightarrow> update_body \<Rightarrow> response \<times> world" where
  "update_post w post_id data =
     (let w1 = get_db_connection w in
      case db w1 of
        None \<Rightarrow> ((500, ErrorExc OperationalError), w1)
      | Some st \<Rightarrow>
          if \<not> sqlite_int_ok post_id then ((500, ErrorExc OverflowError), w1)
          else if post_id \<notin> p_id ` set (posts st)
          then ((404, Error ''Post not found''), conn_close w1)
          else
            (let st1 = st\<lparr>posts := map (\<lambda>p. if p_id p = post_id
                                           then p\<lparr>p_text := set_field (u_content data) (p_text p),
                                                  p_category := set_field (u_category data) (p_category p),
                                                  p_location := set_field (u_location data) (p_location p),
                                                  p_image_svg := set_field (u_imageSvg data) (p_image_svg p)\<rparr>
                                           else p) (posts st)\<rparr>;
                 st2 = (case u_tags data of
                          None \<Rightarrow> st1
                        | Some tags \<Rightarrow>
                            insert_all_tags
                              (st1\<lparr>post_tags := filter (\<lambda>r. fst r \<noteq> post_id) (post_tags st1)\<rparr>)
                              post_id tags)
             in ((200, Message ''Post updated successfully''),
                 conn_close (w1\<lparr>db := Some st2\<rparr>))))"

text \<open>\<^verbatim>\<open>delete_post\<close>: the tags first, then the post.\<close>

definition delete_post :: "world \<Rightarrow> int \<Rightarrow> response \<times> world" where
  "delete_post w post_id =
     (let w1 = get_db_connection w in
      case db w1 of
        None \<Rightarrow> ((500, ErrorExc OperationalError), w1)
      | Some st \<Rightarrow>
          if \<not> sqlite_int_ok post_id then ((500, ErrorExc OverflowError), w1)
          else if post_id \<notin> p_id ` set (posts st)
          then ((404, Error ''Post not found''), conn_close w1)
          else ((200, Message ''Post deleted successfully''),
                conn_close (w1\<lparr>db := Some (st\<lparr>post_tags := filter (\<lambda>r. fst r \<noteq> post_id) (post_tags st),
                                              posts := filter (\<lambda>p. p_id p \<noteq> post_id) (posts st)\<rparr>)\<rparr>)))"

section \<open>Definitions for stating the properties\<close>

text \<open>Dropping the later duplicates of a list: the first occurrence of every element
  stays, in its place.\<close>

fun dedup_first :: "'a list \<Rightarrow> 'a list" where
  "dedup_first [] = []"
| "dedup_first (x # xs) = x # dedup_first (removeAll x xs)"

text \<open>A standard library that decodes JSON as \<^verbatim>\<open>loads\<close> does and refuses every float
  literal and every date.\<close>

definition lib_of :: "(string \<Rightarrow> py_exc + json) \<Rightarrow> pylib" where
  "lib_of loads = \<lparr>float_literal = (\<lambda>s. None), json_loads = loads, repr_json = (\<lambda>j. []),
     strptime = (\<lambda>s f. None), strftime = (\<lambda>d f. [])\<rparr>"

text \<open>The rows that the filters of a request select: what the count query of
  \<^verbatim>\<open>get_posts\<close> counts.\<close>

definition matching_rows :: "posts_args \<Rightarrow> store \<Rightarrow> (post \<times> author) list" where
  "matching_rows args st =
     filter (row_matches (py_strip (arg_or (arg_search args) []))
                         (py_strip (arg_or (arg_category args) []))
                         (py_strip (arg_or (arg_dateFrom args) []))
                         (py_strip (arg_or (arg_dateTo args) [])))
       (joined st)"

text \<open>A store with one author and no post.\<close>

definition one_author_store :: store where
  "one_author_store =
     \<lparr>authors = [\<lparr>a_id = 1, a_first_name = ''Ann'', a_last_name = ''Lee'',
                   a_email = ''ann@example.com'', a_company = None, a_job_title = None,
                   a_bio = None, a_follower_count = 0, a_verified = 0\<rparr>],
      author_seq = 1, posts = [], post_tags = []\<rparr>"

text \<open>A store with 25 posts of one author, and the request for page 3 in pages of
  10.\<close>

definition posts25_store :: store where
  "posts25_store =
     one_author_store\<lparr>posts :=
       map (\<lambda>i. \<lparr>p_id = i, p_author_id = 1, p_text = Some ''hello'', p_date = None, p_likes = 0,
                   p_comments = 0, p_shares = 0, p_total_engagements = 0,
                   p_engagement_rate = None, p_image_svg = None, p_category = None,
                   p_location = None\<rparr>) [1..25]\<rparr>"

definition page3_args :: posts_args where
  "page3_args = \<lparr>arg_search = None, arg_category = None, arg_dateFrom = None,
     arg_dateTo = None, arg_sortBy = None, arg_page = Some ''3'', arg_limit = Some ''10''\<rparr>"

text \<open>A row of the CSV file whose tag list holds a duplicate, as \<^verbatim>\<open>csv.DictReader\<close>
  yields it, and a standard library that reads the two literals of the row.\<close>

definition dup_row :: "string \<rightharpoonup> pyval" where
  "dup_row = map_of
     [(''author_first_name'', PyStr ''Ann''), (''author_last_name'', PyStr ''Lee''),
      (''author_email'', PyStr ''ann@example.com''), (''author_company'', PyStr []),
      (''author_job_title'', PyStr []), (''author_bio'', PyStr []),
      (''author_follower_count'', PyStr []), (''author_verified'', PyStr ''true''),
      (''post_id'', PyStr ''1''), (''post_text'', PyStr ''Hello''), (''post_date'', PyStr []),
      (''likes'', PyStr []), (''comments'', PyStr []), (''shares'', PyStr []),
      (''total_engagements'', PyStr []), (''engagement_rate'', PyStr []),
      (''post_image_svg'', PyStr []), (''post_category'', PyStr []), (''location'', PyStr []),
      (''post_tags'', PyStr ''[\"#a\",\"#a\",\"#b\"]'')]"

text \<open>The same row with another post text: a second export of the post.\<close>

definition changed_row :: "string \<rightharpoonup> pyval" where
  "changed_row = dup_row(''post_text'' \<mapsto> PyStr ''Changed'')"

definition example_lib :: pylib where
  "example_lib = \<lparr>float_literal = (\<lambda>s. if s = ''1'' then Some (Finite 1) else None),
     json_loads = (\<lambda>s. if s = ''[\"#a\",\"#a\",\"#b\"]''
                         then Inr (JArr [JStr ''#a'', JStr ''#a'', JStr ''#b''])
                         else Inl JSONDecodeError),
     repr_json = (\<lambda>j. []), strptime = (\<lambda>s f. None), strftime = (\<lambda>d f. [])\<rparr>"

text \<open>The state after the tags of a row are stored: every tag of the row once.\<close>

definition store_tags :: "cleaned \<Rightarrow> import_state \<Rightarrow> store \<Rightarrow> import_state" where
  "store_tags c s1 st =
     s1\<lparr>i_store := st\<lparr>post_tags := post_tags st @ map (Pair (c_post_id c)) (c_tags c)\<rparr>,
        i_stats := (i_stats s1)\<lparr>posts_created := posts_created (i_stats s1) + 1,
                     tags_created := tags_created (i_stats s1) + length (c_tags c)\<rparr>\<rparr>"

text \<open>
  The invariants of the store: no (post id, tag) pair is stored twice; every tag row
  refers to a post; no two posts share an id; no two authors share an email.
\<close>

definition tags_distinct :: "store \<Rightarrow> bool" where
  "tags_distinct st = distinct (post_tags st)"

definition tags_refer :: "store \<Rightarrow> bool" where
  "tags_refer st = (fst ` set (post_tags st) \<subseteq> p_id ` set (posts st))"

definition post_ids_distinct :: "store \<Rightarrow> bool" where
  "post_ids_distinct st = distinct (map p_id (posts st))"

definition emails_distinct :: "store \<Rightarrow> bool" where
  "emails_distinct st = distinct (map a_email (authors st))"

definition store_inv :: "store \<Rightarrow> bool" where
  "store_inv st = (tags_distinct st \<and> tags_refer st \<and> post_ids_distinct st \<and> emails_distinct st)"

text \<open>The state in which \<^verbatim>\<open>import_data\<close> enters its loop on a fresh schema.\<close>

definition state0 :: import_state where
  "state0 = \<lparr>i_store = empty_store, authors_cache = Map.empty, i_stats = stats0\<rparr>"

text \<open>Two create-post requests of the author of \<^term>\<open>one_author_store\<close>: with two
  tags, and with one tag twice.\<close>

definition two_tags_body :: create_body where
  "two_tags_body = \<lparr>authorEmail = Some ''ann@example.com'', content = Some ''Hello'',
     imageSvg = None, b_category = None, b_location = None, b_tags = Some [''#a'', ''#b'']\<rparr>"

definition same_tag_twice_body :: create_body where
  "same_tag_twice_body = two_tags_body\<lparr>b_tags := Some [''#a'', ''#a'']\<rparr>"

section \<open>Properties of the normalizers\<close>

text \<open>
  C6 (as amended). \<^verbatim>\<open>clean_boolean\<close> returns 1 (true) if and only if its input is not
  \<^verbatim>\<open>None\<close> and the input's text, with the surrounding white space stripped and then
  lowercased, is one of \<^verbatim>\<open>true\<close>, \<^verbatim>\<open>1\<close>, \<^verbatim>\<open>yes\<close>; every other input yields 0
  (false).
\<close>

theorem clean_boolean_iff:
  "(clean_boolean v = 1) =
     (v \<noteq> PyNone \<and> py_lower (py_strip (py_str v)) \<in> {''true'', ''1'', ''yes''})
   \<and> (clean_boolean v = 1 \<or> clean_boolean v = 0)"
  by (simp add: clean_boolean_def Let_def)

text \<open>
  The claim as stated compares the lowercased input: the input \<^verbatim>\<open>" true"\<close> lowercases to
  itself, which is none of the three words, and \<^verbatim>\<open>clean_boolean\<close> answers 1 all the same,
  because it strips the input first.
\<close>

theorem clean_boolean_counterexample:
  "clean_boolean (PyStr '' true'') = 1 \<and> py_lower '' true'' \<notin> {''true'', ''1'', ''yes''}"
  by (simp add: clean_boolean_def py_lower_def py_strip_def is_space_def lower_char_def
      is_upper_def)

lemma clean_boolean_examples:
  "clean_boolean (PyStr ''true'') = 1" "clean_boolean (PyStr ''True'') = 1"
  "clean_boolean (PyStr ''TRUE'') = 1" "clean_boolean (PyStr ''1'') = 1"
  "clean_boolean (PyStr ''yes'') = 1" "clean_boolean (PyStr ''false'') = 0"
  "clean_boolean (PyStr ''0'') = 0" "clean_boolean (PyStr []) = 0"
  "clean_boolean PyNone = 0" "clean_boolean (PyInt 1) = 1"
  by code_simp+

text \<open>
  C2. The claim: no normalizer raises, whatever the input string, \<^verbatim>\<open>inf\<close> included.
  \<^verbatim>\<open>clean_integer\<close> does raise there: \<^verbatim>\<open>float('inf')\<close> is infinity, \<^verbatim>\<open>int\<close> of it
  raises \<^verbatim>\<open>OverflowError\<close>, and the handler catches \<^verbatim>\<open>ValueError\<close> and
  \<^verbatim>\<open>TypeError\<close> only.
\<close>

theorem clean_integer_inf_raises:
  "clean_integer L (PyStr ''inf'') = Inl OverflowError"
  by (simp add: clean_integer_def py_float_def py_strip_def is_space_def num_strip_def
        is_num_space_def ascii_lower_def
      int_of_float_def Let_def)

lemma clean_integer_special_values:
  "clean_integer L (PyStr ''-inf'') = Inl OverflowError"
  "clean_integer L (PyStr ''nan'') = Inr 0"
  "clean_integer L (PyStr []) = Inr 0"
  "clean_float L (PyStr ''inf'') = PosInf"
  by (simp_all add: clean_integer_def clean_float_def py_float_def py_strip_def is_space_def
      num_strip_def is_num_space_def ascii_lower_def int_of_float_def Let_def)

lemma lower_char_not_upper: "\<not> is_upper (lower_char c)"
  by (auto simp: lower_char_def is_upper_def Let_def)

lemma lower_char_idem: "lower_char (lower_char c) = lower_char c"
  using lower_char_not_upper [of c] by (simp add: lower_char_def [of "lower_char c"])

lemma starts_with_set: "starts_with old s \<Longrightarrow> set old \<subseteq> set s"
proof -
  assume "starts_with old s"
  then have "old = take (length old) s" by (simp add: starts_with_def)
  then show ?thesis by (metis set_take_subset)
qed

lemma set_py_replace:
  "set new \<subseteq> set old \<Longrightarrow> set (py_replace old new s) \<subseteq> set s"
proof (induction old new s rule: py_replace.induct)
  case (1 old new)
  then show ?case by simp
next
  case (2 old new c s)
  show ?case
  proof (cases "old \<noteq> [] \<and> starts_with old (c # s)")
    case True
    then have "set (py_replace old new (drop (length old) (c # s))) \<subseteq> set (drop (length old) (c # s))"
      using 2 by blast
    moreover have "set (drop (length old) (c # s)) \<subseteq> set (c # s)"
      by (rule set_drop_subset)
    moreover have "set new \<subseteq> set (c # s)"
      using True starts_with_set 2(3) by blast
    moreover have "py_replace old new (c # s) = new @ py_replace old new (drop (length old) (c # s))"
      using True by simp
    ultimately show ?thesis by auto
  next
    case False
    then have "py_replace old new (c # s) = c # py_replace old new s" by auto
    moreover have "set (py_replace old new s) \<subseteq> set s" using False 2 by blast
    ultimately show ?thesis by auto
  qed
qed

lemma py_replace_nonempty:
  "new \<noteq> [] \<Longrightarrow> s \<noteq> [] \<Longrightarrow> py_replace old new s \<noteq> []"
  by (cases s) auto

lemma collapse_double_at_no_at: "\<not> contains ''@@'' (collapse_double_at e)"
proof (induction e rule: collapse_double_at.induct)
  case (1 email)
  then show ?case by (subst collapse_double_at.simps) simp
qed

lemma set_collapse_double_at: "set (collapse_double_at e) \<subseteq> set e"
proof (induction e rule: collapse_double_at.induct)
  case (1 email)
  show ?case
  proof (cases "contains ''@@'' email")
    case True
    have "set (py_replace ''@@'' ''@'' email) \<subseteq> set email"
      by (rule set_py_replace) simp
    then show ?thesis
      using True 1 by (subst collapse_double_at.simps) auto
  next
    case False
    then show ?thesis by (subst collapse_double_at.simps) simp
  qed
qed

lemma collapse_double_at_empty_iff: "collapse_double_at e = [] \<longleftrightarrow> e = []"
proof (induction e rule: collapse_double_at.induct)
  case (1 email)
  show ?case
  proof (cases "contains ''@@'' email")
    case True
    then have ne: "email \<noteq> []" by (auto simp: starts_with_def)
    then have "py_replace ''@@'' ''@'' email \<noteq> []" by (simp add: py_replace_nonempty)
    then have "collapse_double_at (py_replace ''@@'' ''@'' email) \<noteq> []" using 1 True by simp
    then show ?thesis using True ne by (subst collapse_double_at.simps) simp
  next
    case False
    then show ?thesis by (subst collapse_double_at.simps) simp
  qed
qed

lemma py_lower_fixed: "set e \<subseteq> set (py_lower t) \<Longrightarrow> py_lower e = e"
proof -
  assume sub: "set e \<subseteq> set (py_lower t)"
  have "lower_char c = c" if "c \<in> set e" for c
  proof -
    from that sub obtain d where "c = lower_char d" by (auto simp: py_lower_def)
    then show ?thesis by (simp add: lower_char_idem)
  qed
  then show ?thesis by (simp add: py_lower_def map_idI)
qed

text \<open>
  C7 (as amended). For every input string \<^verbatim>\<open>clean_email\<close> terminates: each pass of its
  loop makes a string that holds \<^verbatim>\<open>@@\<close> strictly shorter. It returns null when the
  input is empty after trimming (the empty input and an input of white space alike), and
  otherwise the trimmed, lowercased input with \<^verbatim>\<open>@@\<close> collapsed until none remains: a
  string that lowercasing leaves unchanged and that holds no \<^verbatim>\<open>@@\<close>, also where a
  collapse makes a new pair (\<^verbatim>\<open>a@@@@b\<close>). \<^verbatim>\<open>clean_email("John@@Example.com")\<close> is
  \<^verbatim>\<open>"john@example.com"\<close>.
\<close>

theorem clean_email_spec:
  "clean_email (PyStr s) =
     (if py_strip s = [] then None else Some (collapse_double_at (py_lower (py_strip s))))
   \<and> (\<forall>e. clean_email (PyStr s) = Some e \<longrightarrow> py_lower e = e \<and> \<not> contains ''@@'' e)
   \<and> (\<forall>e. contains ''@@'' e \<longrightarrow> length (py_replace ''@@'' ''@'' e) < length e)
   \<and> clean_email (PyStr []) = None
   \<and> clean_email (PyStr ''John@@Example.com'') = Some ''john@example.com''
   \<and> clean_email (PyStr ''a@@@@b'') = Some ''a@b''"
proof -
  have a: "clean_email (PyStr s) =
     (if py_strip s = [] then None else Some (collapse_double_at (py_lower (py_strip s))))"
    by (auto simp: clean_email_def Let_def collapse_double_at_empty_iff py_lower_def py_strip_def)
  have b: "py_lower e = e \<and> \<not> contains ''@@'' e" if "clean_email (PyStr s) = Some e" for e
  proof -
    from that a have e: "e = collapse_double_at (py_lower (py_strip s))"
      by (auto split: if_splits)
    have "set e \<subseteq> set (py_lower (py_strip s))"
      unfolding e by (rule set_collapse_double_at)
    then have "py_lower e = e" by (rule py_lower_fixed)
    moreover have "\<not> contains ''@@'' e" unfolding e by (rule collapse_double_at_no_at)
    ultimately show ?thesis by simp
  qed
  have c: "length (py_replace ''@@'' ''@'' e) < length e" if "contains ''@@'' e" for e
    using that by (rule py_replace_shorter) simp
  have d: "clean_email (PyStr []) = None" by (simp add: clean_email_def)
  have e: "clean_email (PyStr ''John@@Example.com'') = Some ''john@example.com''" by code_simp
  have f: "clean_email (PyStr ''a@@@@b'') = Some ''a@b''" by code_simp
  from a b c d e f show ?thesis by blast
qed

text \<open>
  The claim as stated gives null to the empty input only and a string to every other
  input: an input of one space is not empty, and \<^verbatim>\<open>clean_email\<close> returns null for it.
\<close>

theorem clean_email_counterexample:
  "clean_email (PyStr '' '') = None \<and> '' '' \<noteq> []"
  by (simp add: clean_email_def py_strip_def is_space_def py_lower_def collapse_double_at.simps)

theorem clean_email_witness:
  "contains ''@@'' ''A@@@b'' \<and> length (py_replace ''@@'' ''@'' ''A@@@b'') < length ''A@@@b''
   \<and> clean_email (PyStr '' A@@@b'') = Some ''a@b'' \<and> py_lower ''a@b'' = ''a@b''
   \<and> \<not> contains ''@@'' ''a@b''"
proof -
  have 1: "clean_email (PyStr '' A@@@b'') = Some ''a@b''" by code_simp
  have 2: "contains ''@@'' ''A@@@b''" by code_simp
  from clean_email_spec [of "'' A@@@b''"] 1 2 show ?thesis by blast
qed

lemma re_sub_prefix:
  "x = re_sub_extra_commas x @ drop (length (re_sub_extra_commas x)) x"
  by (induction x) auto

lemma re_sub_suffix_matches:
  "drop (length (re_sub_extra_commas x)) x = [] \<or>
   match_extra_commas (drop (length (re_sub_extra_commas x)) x)"
  by (induction x) auto

lemma re_sub_leftmost:
  "i < length (re_sub_extra_commas x) \<Longrightarrow> \<not> match_extra_commas (drop i x)"
proof (induction x arbitrary: i)
  case Nil
  then show ?case by simp
next
  case (Cons c s)
  then show ?case by (cases i) (auto split: if_splits)
qed

lemma last_dropWhile: "dropWhile P xs \<noteq> [] \<Longrightarrow> last (dropWhile P xs) = last xs"
  by (metis last_appendR takeWhile_dropWhile_id)

lemma py_strip_ends:
  assumes "py_strip x \<noteq> []"
  shows "\<not> is_space (hd (py_strip x)) \<and> \<not> is_space (last (py_strip x))"
proof -
  define y where "y = dropWhile is_space x"
  define z where "z = dropWhile is_space (rev y)"
  have s: "py_strip x = rev z" by (simp add: py_strip_def y_def z_def)
  with assms have z: "z \<noteq> []" by simp
  then have y: "y \<noteq> []" by (auto simp: z_def)
  have "\<not> is_space (hd z)" using z unfolding z_def by (rule hd_dropWhile)
  then have l: "\<not> is_space (last (py_strip x))" using z by (simp add: s last_rev)
  have "last z = last (rev y)" using z unfolding z_def by (rule last_dropWhile)
  then have "hd (py_strip x) = hd y" using z y by (simp add: s hd_rev last_rev)
  moreover have "\<not> is_space (hd y)" using y unfolding y_def by (rule hd_dropWhile)
  ultimately show ?thesis using l by simp
qed

lemma py_strip_nonempty:
  assumes "t \<noteq> []" "\<not> is_space (hd t)"
  shows "py_strip t \<noteq> []"
proof -
  have "dropWhile is_space t = t" using assms by (cases t) auto
  moreover have "hd t \<in> set (rev t)" using assms by simp
  then have "dropWhile is_space (rev t) \<noteq> []"
    using assms(2) by (metis dropWhile_eq_Nil_conv)
  ultimately show ?thesis by (simp add: py_strip_def)
qed

lemma hd_py_replace_percent:
  "u \<noteq> [] \<Longrightarrow> \<not> is_space (hd u) \<Longrightarrow> \<not> is_space (hd (py_replace ''%%'' ''%'' u))"
  by (cases u) (auto simp: is_space_def)

lemma hd_re_sub:
  "re_sub_extra_commas x \<noteq> [] \<Longrightarrow> hd (re_sub_extra_commas x) = hd x"
  by (cases x) (auto split: if_splits)

lemma clean_text_PyStr:
  "clean_text (PyStr s) =
     (let t = re_sub_extra_commas (py_replace ''%%'' ''%'' (py_strip s))
      in if t = [] then None else Some (py_strip t))"
  by (auto simp: clean_text_def Let_def py_strip_def)

lemma clean_text_trimmed:
  assumes "clean_text (PyStr s) = Some r"
  shows "r \<noteq> [] \<and> \<not> is_space (hd r) \<and> \<not> is_space (last r)"
proof -
  define u where "u = py_strip s"
  define x where "x = py_replace ''%%'' ''%'' u"
  define t where "t = re_sub_extra_commas x"
  from assms have t: "t \<noteq> []" and r: "r = py_strip t"
    by (auto simp: clean_text_PyStr Let_def t_def x_def u_def split: if_splits)
  have "x \<noteq> []" using t by (auto simp: t_def)
  then have u: "u \<noteq> []" by (auto simp: x_def)
  then have "\<not> is_space (hd u)" using py_strip_ends [of s] by (simp add: u_def)
  then have "\<not> is_space (hd x)" using u unfolding x_def by (rule hd_py_replace_percent [rotated])
  then have "\<not> is_space (hd t)" using t hd_re_sub [of x] by (simp add: t_def)
  then have "r \<noteq> []" using t r py_strip_nonempty by simp
  then show ?thesis using py_strip_ends [of t] r by simp
qed

text \<open>
  C8 (as amended). For every input string \<^verbatim>\<open>clean_text\<close> trims the input, replaces
  every \<^verbatim>\<open>%%\<close> (found from the left, without overlap) by \<^verbatim>\<open>%\<close>, and strips the
  trailing pattern: the text \<^verbatim>\<open>x\<close> so far splits into \<^verbatim>\<open>t\<close> and \<^verbatim>\<open>m\<close>, where
  \<^verbatim>\<open>m\<close> is empty or a match of \<^verbatim>\<open>, extra, commas\<close> (letters in either case, any white
  space after the commas and at the end) and no match starts inside \<^verbatim>\<open>t\<close>. It returns
  null when nothing remains of the text (the empty input, an input of white space, an
  input that is the pattern alone), and otherwise \<^verbatim>\<open>t\<close> trimmed: a non-empty string
  with no white space at either end. \<^verbatim>\<open>clean_text("40%% off, extra, commas")\<close> is
  \<^verbatim>\<open>"40% off"\<close>.
\<close>

theorem clean_text_spec:
  "(let x = py_replace ''%%'' ''%'' (py_strip s);
        t = re_sub_extra_commas x;
        m = drop (length t) x
    in x = t @ m \<and> (m = [] \<or> match_extra_commas m)
       \<and> (\<forall>i<length t. \<not> match_extra_commas (drop i x))
       \<and> clean_text (PyStr s) = (if t = [] then None else Some (py_strip t)))
   \<and> (\<forall>r. clean_text (PyStr s) = Some r \<longrightarrow>
          r \<noteq> [] \<and> \<not> is_space (hd r) \<and> \<not> is_space (last r))
   \<and> clean_text (PyStr []) = None
   \<and> clean_text (PyStr ''40%% off, extra, commas'') = Some ''40% off''"
proof -
  define x where "x = py_replace ''%%'' ''%'' (py_strip s)"
  define t where "t = re_sub_extra_commas x"
  define m where "m = drop (length t) x"
  have a: "x = t @ m" unfolding m_def t_def by (rule re_sub_prefix)
  have b: "m = [] \<or> match_extra_commas m" unfolding m_def t_def by (rule re_sub_suffix_matches)
  have c: "\<forall>i<length t. \<not> match_extra_commas (drop i x)"
    unfolding t_def using re_sub_leftmost by blast
  have d: "clean_text (PyStr s) = (if t = [] then None else Some (py_strip t))"
    unfolding t_def x_def by (simp only: clean_text_PyStr Let_def)
  have e: "\<forall>r. clean_text (PyStr s) = Some r \<longrightarrow>
          r \<noteq> [] \<and> \<not> is_space (hd r) \<and> \<not> is_space (last r)"
    using clean_text_trimmed by blast
  have f: "clean_text (PyStr []) = None" by (simp add: clean_text_def)
  have g: "clean_text (PyStr ''40%% off, extra, commas'') = Some ''40% off''" by code_simp
  from a b c d have "x = t @ m \<and> (m = [] \<or> match_extra_commas m)
       \<and> (\<forall>i<length t. \<not> match_extra_commas (drop i x))
       \<and> clean_text (PyStr s) = (if t = [] then None else Some (py_strip t))"
    by (intro conjI)
  then have "(let x = py_replace ''%%'' ''%'' (py_strip s);
        t = re_sub_extra_commas x;
        m = drop (length t) x
    in x = t @ m \<and> (m = [] \<or> match_extra_commas m)
       \<and> (\<forall>i<length t. \<not> match_extra_commas (drop i x))
       \<and> clean_text (PyStr s) = (if t = [] then None else Some (py_strip t)))"
    unfolding Let_def m_def t_def x_def .
  with e f g show ?thesis by (intro conjI)
qed

text \<open>
  The claim as stated returns null for the empty input only. The input
  \<^verbatim>\<open>", extra, commas"\<close> is not empty, and \<^verbatim>\<open>clean_text\<close> returns null for it (the
  claim's words give the empty string).
\<close>

theorem clean_text_counterexample:
  "clean_text (PyStr '', extra, commas'') = None \<and> '', extra, commas'' \<noteq> []"
  by code_simp

theorem clean_text_witness:
  "clean_text (PyStr '' a %% b, Extra,  COMMAS '') = Some ''a % b''
   \<and> ''a % b'' \<noteq> [] \<and> \<not> is_space (hd ''a % b'') \<and> \<not> is_space (last ''a % b'')"
proof -
  have 1: "clean_text (PyStr '' a %% b, Extra,  COMMAS '') = Some ''a % b''" by code_simp
  note th = clean_text_spec [of "'' a %% b, Extra,  COMMAS ''"]
  from th [THEN conjunct2, THEN conjunct1, rule_format, OF 1] 1 show ?thesis by blast
qed

lemma collect_tags_eq:
  "collect_tags L ts acc =
     acc @ dedup_first (filter (\<lambda>t. t \<noteq> [] \<and> t \<notin> set acc)
                          (map (\<lambda>j. py_strip (str_json L j)) ts))"
proof (induction ts arbitrary: acc)
  case Nil
  then show ?case by simp
next
  case (Cons t ts)
  define tag where "tag = py_strip (str_json L t)"
  show ?case
  proof (cases "tag \<noteq> [] \<and> tag \<notin> set acc")
    case True
    have "removeAll tag (filter (\<lambda>t. t \<noteq> [] \<and> t \<notin> set acc) xs)
            = filter (\<lambda>t. t \<noteq> [] \<and> t \<notin> set (acc @ [tag])) xs" for xs
      by (induction xs) auto
    then show ?thesis
      using True Cons.IH [of "acc @ [tag]"] by (simp add: tag_def [symmetric] Let_def)
  next
    case False
    then show ?thesis
      using Cons.IH [of acc] by (auto simp: tag_def [symmetric] Let_def)
  qed
qed

lemma distinct_dedup_first: "distinct (dedup_first xs)" and set_dedup_first: "set (dedup_first xs) = set xs"
  by (induction xs rule: dedup_first.induct) auto

text \<open>
  C10. When \<^verbatim>\<open>json.loads\<close> succeeds on the input and the value is not a list (a number,
  a string, an object, ...), \<^verbatim>\<open>parse_tags\<close> returns the empty list, exactly as it does
  when \<^verbatim>\<open>json.loads\<close> raises \<^verbatim>\<open>JSONDecodeError\<close>. When the value is a list, every
  element is coerced to a string (\<^verbatim>\<open>str\<close>) and trimmed, the elements that are empty
  after the trim are dropped, and of equal elements only the first stays. (An exception
  of \<^verbatim>\<open>json.loads\<close> other than \<^verbatim>\<open>JSONDecodeError\<close> is not caught: lemma
  \<open>parse_tags_escapes\<close>.)
\<close>

theorem parse_tags_spec:
  "(json_loads L s = Inl JSONDecodeError \<longrightarrow> parse_tags L (PyStr s) = Inr [])
   \<and> (\<forall>j. json_loads L s = Inr j \<longrightarrow> (\<forall>ts. j \<noteq> JArr ts) \<longrightarrow> parse_tags L (PyStr s) = Inr [])
   \<and> (\<forall>ts. s \<noteq> [] \<longrightarrow> json_loads L s = Inr (JArr ts) \<longrightarrow>
         parse_tags L (PyStr s) =
           Inr (dedup_first (filter (\<lambda>t. t \<noteq> []) (map (\<lambda>j. py_strip (str_json L j)) ts))))"
proof (intro conjI allI impI)
  assume "json_loads L s = Inl JSONDecodeError"
  then show "parse_tags L (PyStr s) = Inr []" by (simp add: parse_tags_def)
next
  fix j assume "json_loads L s = Inr j" "\<forall>ts. j \<noteq> JArr ts"
  then show "parse_tags L (PyStr s) = Inr []" by (cases j) (simp_all add: parse_tags_def)
next
  fix ts assume "s \<noteq> []" "json_loads L s = Inr (JArr ts)"
  then show "parse_tags L (PyStr s) =
           Inr (dedup_first (filter (\<lambda>t. t \<noteq> []) (map (\<lambda>j. py_strip (str_json L j)) ts)))"
    by (simp add: parse_tags_def collect_tags_eq)
qed

theorem parse_tags_witness:
  "parse_tags (lib_of (\<lambda>s. Inl JSONDecodeError)) (PyStr ''[oops'') = Inr []
   \<and> parse_tags (lib_of (\<lambda>s. Inr (JInt 7))) (PyStr ''7'') = Inr []
   \<and> parse_tags (lib_of (\<lambda>s. Inr (JArr [JStr '' #a '', JInt 5, JStr '' '', JStr ''#a''])))
        (PyStr ''[\" #a \", 5, \" \", \"#a\"]'') = Inr [''#a'', ''5'']"
proof -
  have 1: "parse_tags (lib_of (\<lambda>s. Inl JSONDecodeError)) (PyStr ''[oops'') = Inr []"
    using parse_tags_spec [of "lib_of (\<lambda>s. Inl JSONDecodeError)" "''[oops''"]
    by (simp add: lib_of_def)
  have 2: "parse_tags (lib_of (\<lambda>s. Inr (JInt 7))) (PyStr ''7'') = Inr []"
    using parse_tags_spec [of "lib_of (\<lambda>s. Inr (JInt 7))" "''7''"] by (simp add: lib_of_def)
  have "dedup_first (filter (\<lambda>t. t \<noteq> [])
          (map (\<lambda>j. py_strip (str_json (lib_of (\<lambda>s. Inr (JArr [JStr '' #a '', JInt 5, JStr '' '', JStr ''#a'']))) j))
             [JStr '' #a '', JInt 5, JStr '' '', JStr ''#a''])) = [''#a'', ''5'']"
    by code_simp
  then have 3: "parse_tags (lib_of (\<lambda>s. Inr (JArr [JStr '' #a '', JInt 5, JStr '' '', JStr ''#a''])))
        (PyStr ''[\" #a \", 5, \" \", \"#a\"]'') = Inr [''#a'', ''5'']"
    using parse_tags_spec [of "lib_of (\<lambda>s. Inr (JArr [JStr '' #a '', JInt 5, JStr '' '', JStr ''#a'']))"
        "''[\" #a \", 5, \" \", \"#a\"]''"]
    by (simp add: lib_of_def)
  from 1 2 3 show ?thesis by (intro conjI)
qed

lemma parse_tags_escapes:
  "json_loads L s = Inl e \<Longrightarrow> e \<noteq> JSONDecodeError \<Longrightarrow> s \<noteq> [] \<Longrightarrow>
   parse_tags L (PyStr s) = Inl e"
  by (simp add: parse_tags_def)

section \<open>Properties of the query service\<close>

text \<open>
  C4. The claim: every handler closes the connection it opened, on every outcome. On the
  path through \<^verbatim>\<open>except Exception\<close> it does not: \<^verbatim>\<open>get_posts\<close> on a database
  without tables opens a connection, the count query raises, and the handler answers 500
  without a call of \<^verbatim>\<open>conn.close()\<close>: the connection it opened is still counted as
  open when it returns (the success path and the 404 paths of the handlers do close).
\<close>

theorem get_posts_error_leaves_connection_open:
  "get_posts \<lparr>db = None, open_conns = n\<rparr>
     \<lparr>arg_search = None, arg_category = None, arg_dateFrom = None, arg_dateTo = None,
      arg_sortBy = None, arg_page = None, arg_limit = None\<rparr>
   = ((500, ErrorExc OperationalError), \<lparr>db = None, open_conns = n + 1\<rparr>)"
  by (simp add: get_posts_def arg_int_def get_db_connection_def Let_def)

lemma select_author_id_None:
  "select_author_id st e = None \<longleftrightarrow> e \<notin> a_email ` set (authors st)"
  by (auto simp: select_author_id_def find_None_iff)

lemma conn_close_open: "conn_close (get_db_connection w) = w"
  by (simp add: conn_close_def get_db_connection_def)

text \<open>
  C9 (as amended). On a database with its tables, a create-post request that carries a
  non-empty author email and a non-empty content, and whose author email is the email of
  no author, is answered 404, and the handler leaves the world as it found it: no post
  row, no tag row and no author row is written, and the connection is closed. Whatever
  else the request holds or lacks, a request whose author email is the email of no author
  leaves the store unchanged.
\<close>

theorem create_post_unknown_author:
  "(db w = Some st \<and> authorEmail data = Some e \<and> e \<noteq> [] \<and> content data = Some c \<and> c \<noteq> []
      \<and> e \<notin> a_email ` set (authors st)
    \<longrightarrow> create_post now w data = ((404, Error ''Author not found''), w))
   \<and> ((\<forall>st e. db w = Some st \<and> authorEmail data = Some e \<longrightarrow> e \<notin> a_email ` set (authors st))
    \<longrightarrow> db (snd (create_post now w data)) = db w)"
proof (intro conjI impI)
  assume a: "db w = Some st \<and> authorEmail data = Some e \<and> e \<noteq> [] \<and> content data = Some c \<and> c \<noteq> []
      \<and> e \<notin> a_email ` set (authors st)"
  then have "select_author_id st e = None" by (simp add: select_author_id_None)
  moreover have "db (get_db_connection w) = Some st" using a by (simp add: get_db_connection_def)
  ultimately show "create_post now w data = ((404, Error ''Author not found''), w)"
    using a by (simp add: create_post_def Let_def conn_close_open)
next
  assume a: "\<forall>st e. db w = Some st \<and> authorEmail data = Some e \<longrightarrow> e \<notin> a_email ` set (authors st)"
  show "db (snd (create_post now w data)) = db w"
  proof (cases "db w")
    case None
    then show ?thesis by (simp add: create_post_def Let_def get_db_connection_def)
  next
    case (Some st)
    show ?thesis
    proof (cases "authorEmail data")
      case None
      then show ?thesis by (simp add: create_post_def)
    next
      case (Some e)
      with a \<open>db w = Some st\<close> have "select_author_id st e = None"
        by (simp add: select_author_id_None)
      moreover have "db (get_db_connection w) = Some st"
        using \<open>db w = Some st\<close> by (simp add: get_db_connection_def)
      ultimately show ?thesis
        using Some by (simp add: create_post_def Let_def conn_close_open)
    qed
  qed
qed

text \<open>
  The claim as stated answers 404 to every request with an unknown author email. The
  handler checks the required fields first: a request with an unknown author email and no
  content is answered 400.
\<close>

theorem create_post_counterexample:
  "''ghost@example.com'' \<notin> a_email ` set (authors one_author_store)
   \<and> fst (create_post ''2026-01-01 00:00:00'' \<lparr>db = Some one_author_store, open_conns = 0\<rparr>
        \<lparr>authorEmail = Some ''ghost@example.com'', content = None, imageSvg = None,
         b_category = None, b_location = None, b_tags = Some [''#a'']\<rparr>)
     = (400, Error ''Content is required'')"
  by (simp add: create_post_def one_author_store_def)

theorem create_post_witness:
  "create_post ''2026-01-01 00:00:00'' \<lparr>db = Some one_author_store, open_conns = 0\<rparr>
        \<lparr>authorEmail = Some ''ghost@example.com'', content = Some ''Hello'', imageSvg = None,
         b_category = None, b_location = None, b_tags = Some [''#a'']\<rparr>
     = ((404, Error ''Author not found''), \<lparr>db = Some one_author_store, open_conns = 0\<rparr>)"
proof -
  have "''ghost@example.com'' \<notin> a_email ` set (authors one_author_store)"
    by (simp add: one_author_store_def)
  then show ?thesis
    using create_post_unknown_author [THEN conjunct1, rule_format,
        of "\<lparr>db = Some one_author_store, open_conns = 0\<rparr>" one_author_store
           "\<lparr>authorEmail = Some ''ghost@example.com'', content = Some ''Hello'', imageSvg = None,
         b_category = None, b_location = None, b_tags = Some [''#a'']\<rparr>"
           "''ghost@example.com''" "''Hello''" "''2026-01-01 00:00:00''"]
    by simp
qed

lemma ceil_div:
  assumes "0 < (l::int)"
  shows "(n + l - 1) div l = \<lceil>real_of_int n / real_of_int l\<rceil>"
proof (rule sym, rule ceiling_unique)
  define z where "z = (n + l - 1) div l"
  define r where "r = (n + l - 1) mod l"
  have eq: "n + l - 1 = z * l + r" by (simp add: z_def r_def)
  have r: "0 \<le> r" "r < l" using assms by (simp_all add: r_def)
  have lr: "0 < real_of_int l" using assms by simp
  have "(z - 1) * l < n" using eq r by (simp add: algebra_simps)
  then have "real_of_int ((z - 1) * l) < real_of_int n" by linarith
  then have "(real_of_int z - 1) * real_of_int l < real_of_int n" by simp
  then show "real_of_int ((n + l - 1) div l) - 1 < real_of_int n / real_of_int l"
    using lr by (simp add: z_def [symmetric] pos_less_divide_eq)
  have "n \<le> z * l" using eq r by (simp add: algebra_simps)
  then have "real_of_int n \<le> real_of_int (z * l)" by linarith
  then have "real_of_int n \<le> real_of_int z * real_of_int l" by simp
  then show "real_of_int n / real_of_int l \<le> real_of_int ((n + l - 1) div l)"
    using lr by (simp add: z_def [symmetric] pos_divide_le_eq)
qed

lemma length_sort_desc: "length (sort_desc k xs) = length xs"
  by (simp add: sort_desc_def)

lemma length_order_rows: "length (order_rows sort_by rows) = length rows"
  by (simp add: order_rows_def length_sort_desc)

lemma length_sql_limit_offset:
  "0 \<le> l \<Longrightarrow> length (sql_limit_offset l off xs) = min (nat l) (length xs - nat off)"
  by (simp add: sql_limit_offset_def Let_def min_def)


text \<open>
  C5. Let \<^verbatim>\<open>N\<close> be the number of posts that the filters of the request select (all
  the posts, when it has no filter), \<^verbatim>\<open>L\<close> the page size and \<^verbatim>\<open>pg\<close> the page the
  request asks for, with \<^verbatim>\<open>L\<close> at least 1. Whenever the list-posts handler answers 200,
  it reports \<^verbatim>\<open>totalPages\<close> as the ceiling of \<^verbatim>\<open>N / L\<close>, \<^verbatim>\<open>hasNext\<close> true iff
  \<^verbatim>\<open>pg\<close> is less than \<^verbatim>\<open>totalPages\<close>, and \<^verbatim>\<open>hasPrev\<close> true iff \<^verbatim>\<open>pg\<close> is greater
  than 1, and it closes its connection; it does answer 200 when \<^verbatim>\<open>L\<close> and the offset
  \<^verbatim>\<open>(pg - 1) * L\<close> are integers that SQLite can bind and the \<^verbatim>\<open>LIKE\<close> pattern of
  the search term is within the 50000 bytes that SQLite accepts. With 25 posts, \<^verbatim>\<open>L = 10\<close> and
  \<^verbatim>\<open>pg = 3\<close> the page holds exactly 5 posts, \<^verbatim>\<open>hasNext\<close> is false, \<^verbatim>\<open>hasPrev\<close> is
  true and \<^verbatim>\<open>totalPages\<close> is 3.
\<close>

theorem get_posts_pagination:
  assumes "arg_int (arg_page args) 1 = Some pg"
      and "arg_int (arg_limit args) 10 = Some L"
      and "1 \<le> L"
      and "db w = Some st"
  defines "N \<equiv> int (length (matching_rows args st))"
  shows "(sqlite_int_ok L \<and> sqlite_int_ok ((pg - 1) * L)
          \<and> \<not> like_too_complex (''%'' @ py_strip (arg_or (arg_search args) []) @ ''%'')
          \<longrightarrow> fst (fst (get_posts w args)) = 200)
    \<and> (fst (fst (get_posts w args)) = 200 \<longrightarrow>
         (\<exists>page_posts pgn.
            get_posts w args = ((200, PostsPage page_posts pgn), w)
            \<and> totalPages pgn = \<lceil>real_of_int N / real_of_int L\<rceil>
            \<and> hasNext pgn = (pg < totalPages pgn)
            \<and> hasPrev pgn = (1 < pg)
            \<and> totalPosts pgn = N \<and> currentPage pgn = pg \<and> postsPerPage pgn = L
            \<and> length page_posts = min (nat L) (nat N - nat ((pg - 1) * L))
            \<and> (N = 25 \<and> L = 10 \<and> pg = 3 \<longrightarrow>
                 length page_posts = 5 \<and> totalPages pgn = 3 \<and> \<not> hasNext pgn \<and> hasPrev pgn)))"
proof (cases "\<not> like_raises (py_strip (arg_or (arg_search args) []))
                 (py_strip (arg_or (arg_category args) []))
                 (py_strip (arg_or (arg_dateFrom args) []))
                 (py_strip (arg_or (arg_dateTo args) [])) st
               \<and> sqlite_int_ok L \<and> sqlite_int_ok ((pg - 1) * L)")
  case False
  have w1: "db (get_db_connection w) = Some st"
    using assms(4) by (simp add: get_db_connection_def)
  have "fst (fst (get_posts w args)) = 500"
    using False assms(1,2) w1 by (auto simp: get_posts_def Let_def)
  moreover have "\<not> (sqlite_int_ok L \<and> sqlite_int_ok ((pg - 1) * L)
          \<and> \<not> like_too_complex (''%'' @ py_strip (arg_or (arg_search args) []) @ ''%''))"
    using False by (auto simp: like_raises_def)
  ultimately show ?thesis by simp
next
  case True
  define search where "search = py_strip (arg_or (arg_search args) [])"
  define matching where "matching = matching_rows args st"
  define rows where "rows = sql_limit_offset L ((pg - 1) * L)
     (order_rows (py_strip (arg_or (arg_sortBy args) ''newest'')) matching)"
  define page_posts where "page_posts = map (\<lambda>r. \<lparr>v_post = fst r, v_author = snd r,
                                     v_tags = tags_of st (p_id (fst r))\<rparr>) rows"
  define pgn where "pgn = \<lparr>currentPage = pg, totalPages = (N + L - 1) div L, totalPosts = N,
     postsPerPage = L, hasNext = (pg < (N + L - 1) div L), hasPrev = (pg > 1)\<rparr>"
  have w1: "db (get_db_connection w) = Some st"
    using assms(4) by (simp add: get_db_connection_def)
  have L0: "L \<noteq> 0" using assms(3) by simp
  have res: "get_posts w args = ((200, PostsPage page_posts pgn), w)"
    using True assms(1,2) w1 L0
    by (simp add: get_posts_def Let_def conn_close_open pgn_def page_posts_def rows_def
        matching_def matching_rows_def N_def)
  have tp: "totalPages pgn = \<lceil>real_of_int N / real_of_int L\<rceil>"
    using assms(3) by (simp add: pgn_def ceil_div)
  have len: "length page_posts = min (nat L) (nat N - nat ((pg - 1) * L))"
    using assms(3)
    by (simp add: page_posts_def rows_def length_sql_limit_offset length_order_rows
        matching_def N_def)
  have ex: "N = 25 \<and> L = 10 \<and> pg = 3 \<longrightarrow>
      length page_posts = 5 \<and> totalPages pgn = 3 \<and> \<not> hasNext pgn \<and> hasPrev pgn"
    using len by (auto simp: pgn_def)
  have rest: "hasNext pgn = (pg < totalPages pgn)" "hasPrev pgn = (1 < pg)"
    "totalPosts pgn = N" "currentPage pgn = pg" "postsPerPage pgn = L"
    by (simp_all add: pgn_def)
  from res tp len ex rest show ?thesis by auto
qed

lemma length_matching25: "length (matching_rows page3_args posts25_store) = 25"
  by code_simp

theorem get_posts_pagination_witness:
  "\<exists>page_posts pgn.
     get_posts \<lparr>db = Some posts25_store, open_conns = 0\<rparr> page3_args
       = ((200, PostsPage page_posts pgn), \<lparr>db = Some posts25_store, open_conns = 0\<rparr>)
     \<and> length page_posts = 5 \<and> totalPages pgn = 3 \<and> \<not> hasNext pgn \<and> hasPrev pgn"
proof -
  have p: "arg_int (arg_page page3_args) 1 = Some 3" by code_simp
  have l: "arg_int (arg_limit page3_args) 10 = Some 10" by code_simp
  have ok: "sqlite_int_ok 10 \<and> sqlite_int_ok ((3 - 1) * 10)" by (simp add: sqlite_int_ok_def)
  have d: "db \<lparr>db = Some posts25_store, open_conns = 0\<rparr> = Some posts25_store" by simp
  have n: "int (length (matching_rows page3_args posts25_store)) = 25"
    by (simp add: length_matching25)
  note th = get_posts_pagination [OF p l _ d, simplified n]
  have one: "(1::int) \<le> 10" by simp
  have short: "\<not> like_too_complex (''%'' @ py_strip (arg_or (arg_search page3_args) []) @ ''%'')"
    by (simp add: like_too_complex_def utf8_length_def page3_args_def arg_or_def py_strip_def)
  from th [OF one] ok short show ?thesis by auto
qed

section \<open>Properties of the importer\<close>

lemma distinct_collect_tags: "distinct (collect_tags L ts [])"
  by (simp add: collect_tags_eq distinct_dedup_first)

lemma distinct_parse_tags: "parse_tags L v = Inr ts \<Longrightarrow> distinct ts"
  by (auto simp: parse_tags_def distinct_collect_tags split: sum.splits json.splits if_splits)

lemma insert_tags_distinct:
  "distinct tags \<Longrightarrow> set tags \<inter> seen = {} \<Longrightarrow>
   insert_tags pid tags seen (st, sts) =
     (st\<lparr>post_tags := post_tags st @ map (Pair pid) tags\<rparr>,
      sts\<lparr>tags_created := tags_created sts + length tags\<rparr>)"
proof (induction tags arbitrary: seen st sts)
  case Nil
  then show ?case by simp
next
  case (Cons t ts)
  then have "distinct ts" "set ts \<inter> insert t seen = {}" "t \<notin> seen" by auto
  then show ?case using Cons.IH [of "insert t seen"] by (simp add: insert_tag_def)
qed

lemma clean_row_fields:
  assumes "clean_row L sts row = Inr (c, sts')"
  shows "duplicate_tags sts' = duplicate_tags sts"
    and "tags_created sts' = tags_created sts"
    and "parse_tags L (row_get row ''post_tags'' (PyStr [])) = Inr (c_tags c)"
    and "clean_integer L (row_get row ''post_id'' (PyInt 0)) = Inr (c_post_id c)"
  using assms
  by (auto simp: clean_row_def bind_exc_def Let_def split: sum.splits)

lemma resolve_author_stats:
  assumes "resolve_author c s = Inr s1"
  shows "duplicate_tags (i_stats s1) = duplicate_tags (i_stats s)"
    and "tags_created (i_stats s1) = tags_created (i_stats s)"
    and "post_tags (i_store s1) = post_tags (i_store s)"
    and "posts (i_store s1) = posts (i_store s)"
  using assms
  by (auto simp: resolve_author_def bind_exc_def insert_or_ignore_author_def Let_def
      split: option.splits sum.splits if_splits)


lemma import_row_eq:
  "import_row L s row =
     bind_exc (clean_row L (i_stats s) row) (\<lambda>(c, sts).
     bind_exc (resolve_author c (s\<lparr>i_stats := sts\<rparr>)) (\<lambda>s1.
       case (case c_email c of None \<Rightarrow> None | Some e \<Rightarrow> authors_cache s1 e) of
         None \<Rightarrow> Inr s1
       | Some author_id \<Rightarrow>
           bind_exc (insert_or_replace_post (i_store s1) (post_of_cleaned c author_id))
             (\<lambda>st. Inr (store_tags c s1 st))))"
proof (cases "clean_row L (i_stats s) row")
  case (Inl e)
  then show ?thesis by (simp add: import_row_def bind_exc_def)
next
  case (Inr r)
  obtain c sts where r: "r = (c, sts)" by (cases r)
  have "distinct (c_tags c)"
    using Inr r clean_row_fields(3) [of L "i_stats s" row c sts] by (auto dest: distinct_parse_tags)
  then have "insert_tags (c_post_id c) (c_tags c) {} (st, x) =
     (st\<lparr>post_tags := post_tags st @ map (Pair (c_post_id c)) (c_tags c)\<rparr>,
      x\<lparr>tags_created := tags_created x + length (c_tags c)\<rparr>)" for st x
    by (simp add: insert_tags_distinct)
  then show ?thesis
    using Inr r
    by (simp add: import_row_def bind_exc_def Let_def store_tags_def
        split: sum.splits option.splits)
qed

lemma import_row_duplicate_tags:
  assumes "import_row L s row = Inr s'"
  shows "duplicate_tags (i_stats s') = duplicate_tags (i_stats s)"
proof -
  from assms obtain c sts where cr: "clean_row L (i_stats s) row = Inr (c, sts)"
    by (auto simp: import_row_eq bind_exc_def split: sum.splits)
  with assms obtain s1 where ra: "resolve_author c (s\<lparr>i_stats := sts\<rparr>) = Inr s1"
    by (auto simp: import_row_eq bind_exc_def split: sum.splits)
  have d1: "duplicate_tags (i_stats s1) = duplicate_tags (i_stats s)"
    using resolve_author_stats(1) [OF ra] clean_row_fields(1) [OF cr] by simp
  show ?thesis
    using assms cr ra d1
    by (auto simp: import_row_eq bind_exc_def store_tags_def split: sum.splits option.splits)
qed

lemma import_rows_duplicate_tags:
  "import_rows L s rows = Inr s' \<Longrightarrow> duplicate_tags (i_stats s') = duplicate_tags (i_stats s)"
proof (induction rows arbitrary: s)
  case Nil
  then show ?case by simp
next
  case (Cons row rows)
  then obtain s1 where 1: "import_row L s row = Inr s1" and 2: "import_rows L s1 rows = Inr s'"
    by (auto simp: bind_exc_def split: sum.splits)
  then show ?case using Cons.IH [OF 2] import_row_duplicate_tags [OF 1] by simp
qed

lemma import_data_duplicate_tags:
  "import_data L st rows = Inr (st', sts) \<Longrightarrow> duplicate_tags sts = 0"
  by (auto simp: import_data_def bind_exc_def stats0_def split: sum.splits
      dest!: import_rows_duplicate_tags)


lemma dup_row_normalized:
  "clean_email (PyStr ''ann@example.com'') = Some ''ann@example.com''"
  "clean_text (PyStr ''Ann'') = Some ''Ann''"
  "clean_text (PyStr ''Lee'') = Some ''Lee''"
  "clean_boolean (PyStr ''true'') = 1"
  "clean_text (PyStr ''Hello'') = Some ''Hello''"
  "clean_text (PyStr ''Changed'') = Some ''Changed''"
  by code_simp+

lemma dup_row_cleaned_any:
  assumes "json_loads L ''[\"#a\",\"#a\",\"#b\"]'' = Inr (JArr [JStr ''#a'', JStr ''#a'', JStr ''#b''])"
      and "float_literal L ''1'' = Some (Finite 1)"
  shows "\<exists>c sts1. clean_row L sts dup_row = Inr (c, sts1)
      \<and> c_email c = Some ''ann@example.com'' \<and> c_first_name c = Some ''Ann''
      \<and> c_last_name c = Some ''Lee'' \<and> c_follower_count c = 0 \<and> c_verified c = 1
      \<and> c_post_id c = 1 \<and> c_likes c = 0 \<and> c_comments c = 0 \<and> c_shares c = 0
      \<and> c_total_engagements c = 0 \<and> c_tags c = [''#a'', ''#b'']
      \<and> duplicate_tags sts1 = duplicate_tags sts \<and> tags_created sts1 = tags_created sts
      \<and> c_post_text c = Some ''Hello''"
proof -
  have pid: "clean_integer L (PyStr ''1'') = Inr 1"
    using assms(2)
    by (simp add: clean_integer_def py_float_def py_strip_def is_space_def num_strip_def
        is_num_space_def ascii_lower_def
        int_of_float_def Let_def)
  have z: "clean_integer L (PyStr []) = Inr 0" by (simp add: clean_integer_def)
  have st: "py_strip ''#a'' = ''#a''" "py_strip ''#b'' = ''#b''"
    by (simp_all add: py_strip_def is_space_def)
  have tags: "parse_tags L (PyStr ''[\"#a\",\"#a\",\"#b\"]'') = Inr [''#a'', ''#b'']"
    using assms(1) by (simp add: parse_tags_def str_json_def st Let_def)
  show ?thesis
    by (simp add: clean_row_def bind_exc_def dup_row_def row_get_def pid z tags
        dup_row_normalized Let_def)
qed

lemma import_dup_row:
  assumes "json_loads L ''[\"#a\",\"#a\",\"#b\"]'' = Inr (JArr [JStr ''#a'', JStr ''#a'', JStr ''#b''])"
      and "float_literal L ''1'' = Some (Finite 1)"
  shows "\<exists>s'. import_row L state0 dup_row = Inr s'
      \<and> post_tags (i_store s') = [(1, ''#a''), (1, ''#b'')]
      \<and> map p_id (posts (i_store s')) = [1]
      \<and> map a_email (authors (i_store s')) = [''ann@example.com'']
      \<and> authors_cache s' ''ann@example.com'' = Some 1
      \<and> tags_created (i_stats s') = 2 \<and> duplicate_tags (i_stats s') = 0
      \<and> map p_text (posts (i_store s')) = [Some ''Hello'']"
proof -
  from dup_row_cleaned_any [OF assms, of stats0] obtain c sts1 where
    c: "clean_row L stats0 dup_row = Inr (c, sts1)"
    and f: "c_email c = Some ''ann@example.com''" "c_first_name c = Some ''Ann''"
      "c_last_name c = Some ''Lee''" "c_follower_count c = 0" "c_verified c = 1"
      "c_post_id c = 1" "c_likes c = 0" "c_comments c = 0" "c_shares c = 0"
      "c_total_engagements c = 0" "c_tags c = [''#a'', ''#b'']"
      "duplicate_tags sts1 = duplicate_tags stats0" "tags_created sts1 = tags_created stats0"
      "c_post_text c = Some ''Hello''"
    by auto
  have z: "duplicate_tags stats0 = 0" "tags_created stats0 = 0" by (simp_all add: stats0_def)
  show ?thesis
    by (simp add: state0_def import_row_eq c f z bind_exc_def resolve_author_def
        insert_or_ignore_author_def select_author_id_def insert_or_replace_post_def
        post_of_cleaned_def store_tags_def empty_store_def sqlite_int_ok_def Let_def)
qed

text \<open>
  C1. The claim: importing one row whose tag list is \<^verbatim>\<open>["#a","#a","#b"]\<close> stores the
  tags \<^verbatim>\<open>#a\<close> and \<^verbatim>\<open>#b\<close> and tallies one duplicate. The import stores the two tags,
  and the tally stays 0: \<^verbatim>\<open>parse_tags\<close> has dropped the duplicate before the loop that
  counts duplicates sees the list (lemma \<open>import_data_duplicate_tags\<close>: the tally is 0
  after every import).
\<close>

theorem import_duplicate_tag_not_counted:
  assumes "json_loads L ''[\"#a\",\"#a\",\"#b\"]'' = Inr (JArr [JStr ''#a'', JStr ''#a'', JStr ''#b''])"
      and "float_literal L ''1'' = Some (Finite 1)"
  shows "\<exists>st sts. import_data L empty_store [dup_row] = Inr (st, sts)
      \<and> post_tags st = [(1, ''#a''), (1, ''#b'')]
      \<and> tags_created sts = 2 \<and> duplicate_tags sts = 0"
proof -
  from import_dup_row [OF assms] obtain s' where
    "import_row L state0 dup_row = Inr s'"
    "post_tags (i_store s') = [(1, ''#a''), (1, ''#b'')]"
    "tags_created (i_stats s') = 2" "duplicate_tags (i_stats s') = 0"
    by auto
  then show ?thesis
    by (simp add: import_data_def state0_def [symmetric] bind_exc_def)
qed

theorem import_duplicate_tag_witness:
  "\<exists>st sts. import_data example_lib empty_store [dup_row] = Inr (st, sts)
      \<and> post_tags st = [(1, ''#a''), (1, ''#b'')]
      \<and> tags_created sts = 2 \<and> duplicate_tags sts = 0"
proof -
  have 1: "json_loads example_lib ''[\"#a\",\"#a\",\"#b\"]''
             = Inr (JArr [JStr ''#a'', JStr ''#a'', JStr ''#b''])"
    by (simp add: example_lib_def)
  have 2: "float_literal example_lib ''1'' = Some (Finite 1)"
    by (simp add: example_lib_def)
  show ?thesis by (rule import_duplicate_tag_not_counted [OF 1 2])
qed

section \<open>The invariants of the store\<close>

lemma distinct_map_insort_key:
  "distinct (map f (insort_key f x xs)) = (f x \<notin> f ` set xs \<and> distinct (map f xs))"
  by (induction xs) (auto simp: set_insort_key)

lemma distinct_map_filter_key: "distinct (map f xs) \<Longrightarrow> distinct (map f (filter P xs))"
  by (rule distinct_map_filter)

lemma post_tags_insert_all_tags:
  "post_tags (insert_all_tags st pid tags) = post_tags st @ map (Pair pid) tags"
  "posts (insert_all_tags st pid tags) = posts st"
  "authors (insert_all_tags st pid tags) = authors st"
  unfolding insert_all_tags_def
  by (induction tags arbitrary: st) (simp_all add: insert_tag_def)

lemma distinct_append_pairs:
  assumes "distinct old" "distinct ts" "pid \<notin> fst ` set old"
  shows "distinct (old @ map (Pair pid) ts)"
  using assms by (auto simp: distinct_map inj_on_def image_iff)

lemma insert_or_ignore_author_inv:
  assumes "insert_or_ignore_author st f l e co jt b fc ver = Inr st'"
  shows "posts st' = posts st" "post_tags st' = post_tags st"
    "emails_distinct st \<Longrightarrow> emails_distinct st'"
  using assms
  by (auto simp: insert_or_ignore_author_def emails_distinct_def
      split: if_splits option.splits)

lemma resolve_author_inv:
  assumes "resolve_author c s = Inr s1"
  shows "posts (i_store s1) = posts (i_store s)"
    "post_tags (i_store s1) = post_tags (i_store s)"
    "emails_distinct (i_store s) \<Longrightarrow> emails_distinct (i_store s1)"
proof -
  show "posts (i_store s1) = posts (i_store s)" "post_tags (i_store s1) = post_tags (i_store s)"
    using assms by (rule resolve_author_stats)+
  assume e: "emails_distinct (i_store s)"
  show "emails_distinct (i_store s1)"
    using assms e insert_or_ignore_author_inv(3)
    by (fastforce simp: resolve_author_def bind_exc_def
        split: option.splits sum.splits if_splits)
qed


lemma import_row_store:
  assumes "import_row L s row = Inr s'"
  shows "(posts (i_store s') = posts (i_store s) \<and> post_tags (i_store s') = post_tags (i_store s))
       \<or> (\<exists>c sts aid. clean_row L (i_stats s) row = Inr (c, sts)
             \<and> posts (i_store s') =
                 insort_key p_id (post_of_cleaned c aid)
                   (filter (\<lambda>q. p_id q \<noteq> c_post_id c) (posts (i_store s)))
             \<and> post_tags (i_store s') =
                 post_tags (i_store s) @ map (Pair (c_post_id c)) (c_tags c))"
    and "emails_distinct (i_store s) \<Longrightarrow> emails_distinct (i_store s')"
proof -
  from assms obtain c sts where cr: "clean_row L (i_stats s) row = Inr (c, sts)"
    by (auto simp: import_row_eq bind_exc_def split: sum.splits)
  with assms obtain s1 where ra: "resolve_author c (s\<lparr>i_stats := sts\<rparr>) = Inr s1"
    by (auto simp: import_row_eq bind_exc_def split: sum.splits)
  note r = resolve_author_inv [OF ra]
  define aid where "aid = (case c_email c of None \<Rightarrow> None | Some e \<Rightarrow> authors_cache s1 e)"
  show "(posts (i_store s') = posts (i_store s) \<and> post_tags (i_store s') = post_tags (i_store s))
       \<or> (\<exists>c sts aid. clean_row L (i_stats s) row = Inr (c, sts)
             \<and> posts (i_store s') =
                 insort_key p_id (post_of_cleaned c aid)
                   (filter (\<lambda>q. p_id q \<noteq> c_post_id c) (posts (i_store s)))
             \<and> post_tags (i_store s') =
                 post_tags (i_store s) @ map (Pair (c_post_id c)) (c_tags c))"
  proof (cases aid)
    case None
    then have "s' = s1"
      using assms cr ra by (simp add: import_row_eq bind_exc_def aid_def)
    then show ?thesis using r by simp
  next
    case (Some a)
    then obtain st where
      ip: "insert_or_replace_post (i_store s1) (post_of_cleaned c a) = Inr st"
      and s': "s' = store_tags c s1 st"
      using assms cr ra
      by (auto simp: import_row_eq bind_exc_def aid_def split: sum.splits)
    from ip have st: "posts st = insort_key p_id (post_of_cleaned c a)
                   (filter (\<lambda>q. p_id q \<noteq> c_post_id c) (posts (i_store s1)))"
      "post_tags st = post_tags (i_store s1)"
      by (auto simp: insert_or_replace_post_def post_of_cleaned_def split: if_splits)
    have "posts (i_store s') = insort_key p_id (post_of_cleaned c a)
                   (filter (\<lambda>q. p_id q \<noteq> c_post_id c) (posts (i_store s)))"
      using s' st r by (simp add: store_tags_def)
    moreover have "post_tags (i_store s') =
                 post_tags (i_store s) @ map (Pair (c_post_id c)) (c_tags c)"
      using s' st r by (simp add: store_tags_def)
    ultimately show ?thesis using cr by blast
  qed
  assume e: "emails_distinct (i_store s)"
  then have e1: "emails_distinct (i_store s1)" using r(3) by simp
  show "emails_distinct (i_store s')"
  proof (cases aid)
    case None
    then have "s' = s1"
      using assms cr ra by (simp add: import_row_eq bind_exc_def aid_def)
    then show ?thesis using e1 by simp
  next
    case (Some a)
    then obtain st where
      ip: "insert_or_replace_post (i_store s1) (post_of_cleaned c a) = Inr st"
      and s': "s' = store_tags c s1 st"
      using assms cr ra
      by (auto simp: import_row_eq bind_exc_def aid_def split: sum.splits)
    from ip have "authors st = authors (i_store s1)"
      by (auto simp: insert_or_replace_post_def split: if_splits)
    then show ?thesis using s' e1 by (simp add: store_tags_def emails_distinct_def)
  qed
qed

lemma p_id_post_of_cleaned: "p_id (post_of_cleaned c aid) = c_post_id c"
  by (simp add: post_of_cleaned_def)

lemma import_row_ids_distinct:
  assumes "import_row L s row = Inr s'" "post_ids_distinct (i_store s)"
  shows "post_ids_distinct (i_store s')"
  using import_row_store(1) [OF assms(1)] assms(2)
  by (auto simp: post_ids_distinct_def distinct_map_insort_key p_id_post_of_cleaned
      distinct_map_filter)

lemma import_row_inv:
  assumes "import_row L s row = Inr s'" "store_inv (i_store s)"
    and fresh: "\<forall>c sts. clean_row L (i_stats s) row = Inr (c, sts)
                  \<longrightarrow> c_post_id c \<notin> fst ` set (post_tags (i_store s))"
  shows "store_inv (i_store s')"
proof -
  have ids: "post_ids_distinct (i_store s')"
    using import_row_ids_distinct [OF assms(1)] assms(2) by (simp add: store_inv_def)
  have em: "emails_distinct (i_store s')"
    using import_row_store(2) [OF assms(1)] assms(2) by (simp add: store_inv_def)
  from import_row_store(1) [OF assms(1)]
  have "tags_distinct (i_store s') \<and> tags_refer (i_store s')"
  proof
    assume "posts (i_store s') = posts (i_store s) \<and> post_tags (i_store s') = post_tags (i_store s)"
    then show ?thesis using assms(2) by (simp add: store_inv_def tags_distinct_def tags_refer_def)
  next
    assume "\<exists>c sts aid. clean_row L (i_stats s) row = Inr (c, sts)
             \<and> posts (i_store s') =
                 insort_key p_id (post_of_cleaned c aid)
                   (filter (\<lambda>q. p_id q \<noteq> c_post_id c) (posts (i_store s)))
             \<and> post_tags (i_store s') =
                 post_tags (i_store s) @ map (Pair (c_post_id c)) (c_tags c)"
    then obtain c sts aid where cr: "clean_row L (i_stats s) row = Inr (c, sts)"
      and p: "posts (i_store s') = insort_key p_id (post_of_cleaned c aid)
                   (filter (\<lambda>q. p_id q \<noteq> c_post_id c) (posts (i_store s)))"
      and t: "post_tags (i_store s') = post_tags (i_store s) @ map (Pair (c_post_id c)) (c_tags c)"
      by blast
    have d: "distinct (c_tags c)"
      using clean_row_fields(3) [OF cr] by (rule distinct_parse_tags)
    have f: "c_post_id c \<notin> fst ` set (post_tags (i_store s))" using fresh cr by blast
    have "distinct (post_tags (i_store s))" using assms(2) by (simp add: store_inv_def tags_distinct_def)
    then have td: "tags_distinct (i_store s')"
      unfolding tags_distinct_def t using d f by (rule distinct_append_pairs)
    have "fst ` set (post_tags (i_store s)) \<subseteq> p_id ` set (posts (i_store s))"
      using assms(2) by (simp add: store_inv_def tags_refer_def)
    then have sub: "fst ` set (post_tags (i_store s)) \<subseteq> p_id ` set (posts (i_store s))" .
    have 1: "fst ` set (post_tags (i_store s'))
               \<subseteq> insert (c_post_id c) (fst ` set (post_tags (i_store s)))"
      by (auto simp: t)
    have 2: "p_id ` set (posts (i_store s')) =
               insert (c_post_id c)
                 (p_id ` {q \<in> set (posts (i_store s)). p_id q \<noteq> c_post_id c})"
      by (simp add: p set_insort_key p_id_post_of_cleaned)
    have 3: "p_id ` set (posts (i_store s)) \<subseteq>
               insert (c_post_id c)
                 (p_id ` {q \<in> set (posts (i_store s)). p_id q \<noteq> c_post_id c})"
      by auto
    have "insert (c_post_id c) (fst ` set (post_tags (i_store s)))
            \<subseteq> insert (c_post_id c) (p_id ` set (posts (i_store s)))"
      using sub by (rule insert_mono)
    also have "\<dots> \<subseteq> p_id ` set (posts (i_store s'))"
      unfolding 2 using 3 by simp
    finally have "fst ` set (post_tags (i_store s')) \<subseteq> p_id ` set (posts (i_store s'))"
      using 1 by (rule subset_trans [rotated])
    then have "tags_refer (i_store s')"
      by (simp only: tags_refer_def)
    with td show ?thesis by simp
  qed
  with ids em show ?thesis by (simp add: store_inv_def)
qed


lemma db_get_db_connection: "db (get_db_connection w) = db w"
  by (simp add: get_db_connection_def)

lemma db_conn_close: "db (conn_close w) = db w"
  by (simp add: conn_close_def)

lemma new_post_inv:
  assumes "store_inv st" "insert_post st p = Inr st1" "distinct ts"
  shows "store_inv (insert_all_tags st1 (p_id p) ts)"
proof -
  from assms(2) have new: "p_id p \<notin> p_id ` set (posts st)"
    and p1: "posts st1 = insort_key p_id p (posts st)"
    and t1: "post_tags st1 = post_tags st" and a1: "authors st1 = authors st"
    by (auto simp: insert_post_def split: if_splits)
  let ?st' = "insert_all_tags st1 (p_id p) ts"
  have sub: "fst ` set (post_tags st) \<subseteq> p_id ` set (posts st)"
    using assms(1) by (simp add: store_inv_def tags_refer_def)
  then have fresh: "p_id p \<notin> fst ` set (post_tags st)" using new by blast
  have "distinct (post_tags st)" using assms(1) by (simp add: store_inv_def tags_distinct_def)
  then have "distinct (post_tags st @ map (Pair (p_id p)) ts)"
    using assms(3) fresh by (rule distinct_append_pairs)
  then have td: "tags_distinct ?st'"
    by (simp add: tags_distinct_def post_tags_insert_all_tags t1)
  have "fst ` set (post_tags ?st') \<subseteq> insert (p_id p) (fst ` set (post_tags st))"
    by (auto simp: post_tags_insert_all_tags t1)
  also have "\<dots> \<subseteq> insert (p_id p) (p_id ` set (posts st))"
    using sub by (rule insert_mono)
  also have "\<dots> = p_id ` set (posts ?st')"
    by (simp add: post_tags_insert_all_tags p1 set_insort_key)
  finally have tr: "tags_refer ?st'" by (simp only: tags_refer_def)
  have "distinct (map p_id (posts st))"
    using assms(1) by (simp add: store_inv_def post_ids_distinct_def)
  then have pd: "post_ids_distinct ?st'"
    using new by (simp add: post_ids_distinct_def post_tags_insert_all_tags p1
        distinct_map_insort_key)
  have ed: "emails_distinct ?st'"
    using assms(1) by (simp add: store_inv_def emails_distinct_def post_tags_insert_all_tags a1)
  from td tr pd ed show ?thesis by (simp add: store_inv_def)
qed

lemma create_post_inv:
  assumes "db w = Some st" "store_inv st" "\<forall>ts. b_tags data = Some ts \<longrightarrow> distinct ts"
    and "db (snd (create_post now w data)) = Some st'"
  shows "store_inv st'"
proof -
  have d: "distinct (case b_tags data of None \<Rightarrow> [] | Some ts \<Rightarrow> ts)"
    using assms(3) by (cases "b_tags data") auto
  have n: "store_inv (insert_all_tags st1 k (case b_tags data of None \<Rightarrow> [] | Some ts \<Rightarrow> ts))"
    if "insert_post st p = Inr st1" "p_id p = k" for p st1 k
    using new_post_inv [OF assms(2) that(1) d] that(2) by simp
  show ?thesis
  proof (cases "snd (create_post now w data) = w \<or> snd (create_post now w data) = get_db_connection w")
    case True
    then have "db (snd (create_post now w data)) = Some st"
      using assms(1) by (auto simp: db_get_db_connection)
    then show ?thesis using assms by simp
  next
    case False
    then obtain aid st1 where
      ip: "insert_post st
             \<lparr>p_id = (case select_max_id st of None \<Rightarrow> 0 | Some m \<Rightarrow> m) + 1,
              p_author_id = aid, p_text = content data,
              p_date = Some now, p_likes = 0, p_comments = 0, p_shares = 0,
              p_total_engagements = 0, p_engagement_rate = Some (Finite 0),
              p_image_svg = Some (arg_or (imageSvg data) []),
              p_category = Some (arg_or (b_category data) []),
              p_location = Some (arg_or (b_location data) [])\<rparr> = Inr st1"
      and r: "db (snd (create_post now w data)) =
           Some (insert_all_tags st1 ((case select_max_id st of None \<Rightarrow> 0 | Some m \<Rightarrow> m) + 1)
                   (case b_tags data of None \<Rightarrow> [] | Some ts \<Rightarrow> ts))"
      using assms(1)
      by (auto simp: create_post_def Let_def db_get_db_connection db_conn_close conn_close_open
          split: option.splits sum.splits if_splits)
    from n [OF ip] r assms(4) show ?thesis by simp
  qed
qed


lemma map_p_id_update:
  "map p_id (map (\<lambda>p. if p_id p = k then p\<lparr>p_text := a p, p_category := b p,
                                             p_location := c p, p_image_svg := d p\<rparr> else p) ps)
     = map p_id ps"
  by (induction ps) auto

lemma update_post_inv:
  assumes "db w = Some st" "store_inv st" "\<forall>ts. u_tags data = Some ts \<longrightarrow> distinct ts"
    and "db (snd (update_post w pid data)) = Some st'"
  shows "store_inv st'"
proof (cases "snd (update_post w pid data) = w \<or> snd (update_post w pid data) = get_db_connection w")
  case True
  then have "db (snd (update_post w pid data)) = Some st"
    using assms(1) by (auto simp: db_get_db_connection)
  then show ?thesis using assms by simp
next
  case False
  define ps where "ps = map (\<lambda>p. if p_id p = pid
                                   then p\<lparr>p_text := set_field (u_content data) (p_text p),
                                          p_category := set_field (u_category data) (p_category p),
                                          p_location := set_field (u_location data) (p_location p),
                                          p_image_svg := set_field (u_imageSvg data) (p_image_svg p)\<rparr>
                                   else p) (posts st)"
  define st1 where "st1 = st\<lparr>posts := ps\<rparr>"
  define st2 where "st2 = (case u_tags data of None \<Rightarrow> st1
                        | Some tags \<Rightarrow>
                            insert_all_tags
                              (st1\<lparr>post_tags := filter (\<lambda>r. fst r \<noteq> pid) (post_tags st1)\<rparr>)
                              pid tags)"
  from False assms(1) have ex: "pid \<in> p_id ` set (posts st)"
    and r: "db (snd (update_post w pid data)) = Some st2"
    by (auto simp: update_post_def Let_def db_get_db_connection db_conn_close conn_close_open
        st2_def st1_def ps_def split: option.splits if_splits)
  have ids: "map p_id ps = map p_id (posts st)" unfolding ps_def by (rule map_p_id_update)
  then have idset: "p_id ` set ps = p_id ` set (posts st)" by (metis set_map)
  have inv: "distinct (post_tags st)" "fst ` set (post_tags st) \<subseteq> p_id ` set (posts st)"
    "distinct (map p_id (posts st))" "distinct (map a_email (authors st))"
    using assms(2)
    by (simp_all add: store_inv_def tags_distinct_def tags_refer_def post_ids_distinct_def
        emails_distinct_def)
  have "store_inv st2"
  proof (cases "u_tags data")
    case None
    then have "st2 = st1" by (simp add: st2_def)
    then show ?thesis
      using inv ids idset
      by (simp add: store_inv_def tags_distinct_def tags_refer_def post_ids_distinct_def
          emails_distinct_def st1_def)
  next
    case (Some ts)
    then have d: "distinct ts" using assms(3) by simp
    let ?old = "filter (\<lambda>r. fst r \<noteq> pid) (post_tags st)"
    have st2: "post_tags st2 = ?old @ map (Pair pid) ts" "posts st2 = ps" "authors st2 = authors st"
      using Some by (simp_all add: st2_def st1_def post_tags_insert_all_tags)
    have "distinct ?old" using inv(1) by simp
    moreover have "pid \<notin> fst ` set ?old" by auto
    ultimately have "distinct (?old @ map (Pair pid) ts)"
      using d by (intro distinct_append_pairs)
    then have td: "tags_distinct st2" by (simp add: tags_distinct_def st2)
    have "fst ` set (post_tags st2) \<subseteq> insert pid (fst ` set (post_tags st))"
      by (auto simp: st2)
    also have "\<dots> \<subseteq> p_id ` set (posts st)" using inv(2) ex by simp
    finally have tr: "tags_refer st2" by (simp add: tags_refer_def st2 idset)
    show ?thesis
      using td tr inv ids
      by (simp add: store_inv_def post_ids_distinct_def emails_distinct_def st2)
  qed
  then show ?thesis using r assms(4) by simp
qed

lemma delete_post_inv:
  assumes "db w = Some st" "store_inv st" "db (snd (delete_post w pid)) = Some st'"
  shows "store_inv st'"
proof (cases "snd (delete_post w pid) = w \<or> snd (delete_post w pid) = get_db_connection w")
  case True
  then have "db (snd (delete_post w pid)) = Some st"
    using assms(1) by (auto simp: db_get_db_connection)
  then show ?thesis using assms by simp
next
  case False
  define st2 where "st2 = st\<lparr>post_tags := filter (\<lambda>r. fst r \<noteq> pid) (post_tags st),
                              posts := filter (\<lambda>p. p_id p \<noteq> pid) (posts st)\<rparr>"
  from False assms(1) have r: "db (snd (delete_post w pid)) = Some st2"
    by (auto simp: delete_post_def Let_def db_get_db_connection db_conn_close conn_close_open
        st2_def split: option.splits if_splits)
  have inv: "distinct (post_tags st)" "fst ` set (post_tags st) \<subseteq> p_id ` set (posts st)"
    "distinct (map p_id (posts st))" "distinct (map a_email (authors st))"
    using assms(2)
    by (simp_all add: store_inv_def tags_distinct_def tags_refer_def post_ids_distinct_def
        emails_distinct_def)
  have "fst ` set (filter (\<lambda>r. fst r \<noteq> pid) (post_tags st))
          \<subseteq> p_id ` set (filter (\<lambda>p. p_id p \<noteq> pid) (posts st))"
    using inv(2) by auto
  then have "store_inv st2"
    using inv
    by (simp add: store_inv_def tags_distinct_def tags_refer_def post_ids_distinct_def
        emails_distinct_def st2_def distinct_map_filter)
  then show ?thesis using r assms(3) by simp
qed


lemma reimport_dup_row:
  assumes "json_loads L ''[\"#a\",\"#a\",\"#b\"]'' = Inr (JArr [JStr ''#a'', JStr ''#a'', JStr ''#b''])"
      and "float_literal L ''1'' = Some (Finite 1)"
      and "authors_cache s1 ''ann@example.com'' = Some 1"
      and "map p_id (posts (i_store s1)) = [1]"
  shows "\<exists>s2. import_row L s1 dup_row = Inr s2
      \<and> map p_id (posts (i_store s2)) = [1]
      \<and> authors (i_store s2) = authors (i_store s1)
      \<and> post_tags (i_store s2) = post_tags (i_store s1) @ [(1, ''#a''), (1, ''#b'')]"
proof -
  from dup_row_cleaned_any [OF assms(1,2), of "i_stats s1"] obtain c sts where
    c: "clean_row L (i_stats s1) dup_row = Inr (c, sts)"
    and f: "c_email c = Some ''ann@example.com''" "c_post_id c = 1" "c_likes c = 0"
      "c_comments c = 0" "c_shares c = 0" "c_total_engagements c = 0"
      "c_tags c = [''#a'', ''#b'']"
    by auto
  have ra: "resolve_author c (s1\<lparr>i_stats := sts\<rparr>) = Inr (s1\<lparr>i_stats := sts\<rparr>)"
    using f assms(3) by (simp add: resolve_author_def)
  obtain q where q: "posts (i_store s1) = [q]" "p_id q = 1"
    using assms(4) by (cases "posts (i_store s1)") auto
  have ip: "insert_or_replace_post (i_store s1) (post_of_cleaned c 1)
          = Inr ((i_store s1)\<lparr>posts := [post_of_cleaned c 1]\<rparr>)"
    using f q by (simp add: insert_or_replace_post_def post_of_cleaned_def sqlite_int_ok_def)
  have "import_row L s1 dup_row
          = Inr (store_tags c (s1\<lparr>i_stats := sts\<rparr>) ((i_store s1)\<lparr>posts := [post_of_cleaned c 1]\<rparr>))"
    using f assms(3) by (simp add: import_row_eq c ra ip bind_exc_def)
  then show ?thesis
    using f by (simp add: store_tags_def post_of_cleaned_def)
qed


text \<open>
  Importing the same row twice keeps one post row and one author row, and stores the tags
  of the row a second time: \<^verbatim>\<open>INSERT OR REPLACE\<close> replaces the post and leaves its tag
  rows, and the loop inserts the tags again.
\<close>

lemma reimport_appends_tags:
  assumes "json_loads L ''[\"#a\",\"#a\",\"#b\"]'' = Inr (JArr [JStr ''#a'', JStr ''#a'', JStr ''#b''])"
      and "float_literal L ''1'' = Some (Finite 1)"
  shows "\<exists>st sts. import_data L empty_store [dup_row, dup_row] = Inr (st, sts)
      \<and> map p_id (posts st) = [1]
      \<and> map a_email (authors st) = [''ann@example.com'']
      \<and> post_tags st = [(1, ''#a''), (1, ''#b''), (1, ''#a''), (1, ''#b'')]"
proof -
  from import_dup_row [OF assms] obtain s1 where
    1: "import_row L state0 dup_row = Inr s1"
    and p: "post_tags (i_store s1) = [(1, ''#a''), (1, ''#b'')]"
      "map p_id (posts (i_store s1)) = [1]"
      "map a_email (authors (i_store s1)) = [''ann@example.com'']"
      "authors_cache s1 ''ann@example.com'' = Some 1"
    by auto
  from reimport_dup_row [OF assms p(4) p(2)] obtain s2 where
    2: "import_row L s1 dup_row = Inr s2"
    and q: "map p_id (posts (i_store s2)) = [1]" "authors (i_store s2) = authors (i_store s1)"
      "post_tags (i_store s2) = post_tags (i_store s1) @ [(1, ''#a''), (1, ''#b'')]"
    by auto
  have "import_rows L state0 [dup_row, dup_row] = Inr s2"
    using 1 2 by (simp add: bind_exc_def)
  then have "import_data L empty_store [dup_row, dup_row] = Inr (i_store s2, i_stats s2)"
    unfolding import_data_def state0_def [symmetric] by (simp add: bind_exc_def)
  moreover have "post_tags (i_store s2) = [(1, ''#a''), (1, ''#b''), (1, ''#a''), (1, ''#b'')]"
    using p(1) q(3) by simp
  moreover have "map a_email (authors (i_store s2)) = [''ann@example.com'']"
    using p(3) q(2) by simp
  ultimately show ?thesis using q(1) by simp
qed

lemma filter_insort_key_same:
  "f x = k \<Longrightarrow> filter (\<lambda>p. f p = k) (insort_key f x (filter (\<lambda>q. f q \<noteq> k) xs)) = [x]"
  by (induction xs) auto

lemma authors_cache_store_tags: "authors_cache (store_tags c s1 st) = authors_cache s1"
  by (simp add: store_tags_def)

lemma import_row_posts:
  assumes "import_row L s row = Inr s'"
  shows "\<exists>c sts. clean_row L (i_stats s) row = Inr (c, sts)
          \<and> (case (case c_email c of None \<Rightarrow> None | Some e \<Rightarrow> authors_cache s' e) of
               None \<Rightarrow> posts (i_store s') = posts (i_store s)
             | Some aid \<Rightarrow>
                 posts (i_store s') =
                   insort_key p_id (post_of_cleaned c aid)
                     (filter (\<lambda>q. p_id q \<noteq> c_post_id c) (posts (i_store s)))
                 \<and> filter (\<lambda>p. p_id p = c_post_id c) (posts (i_store s')) = [post_of_cleaned c aid])"
proof -
  from assms obtain c sts where cr: "clean_row L (i_stats s) row = Inr (c, sts)"
    by (auto simp: import_row_eq bind_exc_def split: sum.splits)
  with assms obtain s1 where ra: "resolve_author c (s\<lparr>i_stats := sts\<rparr>) = Inr s1"
    by (auto simp: import_row_eq bind_exc_def split: sum.splits)
  note r = resolve_author_inv [OF ra]
  define aid where "aid = (case c_email c of None \<Rightarrow> None | Some e \<Rightarrow> authors_cache s1 e)"
  have "case (case c_email c of None \<Rightarrow> None | Some e \<Rightarrow> authors_cache s' e) of
               None \<Rightarrow> posts (i_store s') = posts (i_store s)
             | Some aid \<Rightarrow>
                 posts (i_store s') =
                   insort_key p_id (post_of_cleaned c aid)
                     (filter (\<lambda>q. p_id q \<noteq> c_post_id c) (posts (i_store s)))
                 \<and> filter (\<lambda>p. p_id p = c_post_id c) (posts (i_store s')) = [post_of_cleaned c aid]"
  proof (cases aid)
    case None
    then have eq: "s' = s1"
      using assms cr ra by (simp add: import_row_eq bind_exc_def aid_def)
    have "(case c_email c of None \<Rightarrow> None | Some e \<Rightarrow> authors_cache s' e) = None"
      using None unfolding aid_def eq .
    moreover have "posts (i_store s') = posts (i_store s)" using r(1) by (simp add: eq)
    ultimately show ?thesis by simp
  next
    case (Some a)
    then obtain st where
      ip: "insert_or_replace_post (i_store s1) (post_of_cleaned c a) = Inr st"
      and s': "s' = store_tags c s1 st"
      using assms cr ra
      by (auto simp: import_row_eq bind_exc_def aid_def split: sum.splits)
    from ip have st: "posts st = insort_key p_id (post_of_cleaned c a)
                   (filter (\<lambda>q. p_id q \<noteq> c_post_id c) (posts (i_store s1)))"
      by (auto simp: insert_or_replace_post_def post_of_cleaned_def split: if_splits)
    have p: "posts (i_store s') = insort_key p_id (post_of_cleaned c a)
                   (filter (\<lambda>q. p_id q \<noteq> c_post_id c) (posts (i_store s)))"
      using s' st r by (simp add: store_tags_def)
    have f: "filter (\<lambda>p. p_id p = c_post_id c) (posts (i_store s')) = [post_of_cleaned c a]"
      unfolding p by (rule filter_insort_key_same) (rule p_id_post_of_cleaned)
    have ac: "authors_cache s' = authors_cache s1"
      by (simp add: s' authors_cache_store_tags)
    have "(case c_email c of None \<Rightarrow> None | Some e \<Rightarrow> authors_cache s' e) = Some a"
      using Some unfolding aid_def ac .
    then show ?thesis using p f by simp
  qed
  with cr show ?thesis by (intro exI conjI)
qed

lemma import_row_cached:
  assumes cr: "clean_row L (i_stats s) row = Inr (c, sts)"
    and e: "c_email c = Some e" "authors_cache s e = Some aid"
    and ok: "sqlite_int_ok (c_post_id c)" "sqlite_int_ok aid" "sqlite_int_ok (c_likes c)"
      "sqlite_int_ok (c_comments c)" "sqlite_int_ok (c_shares c)"
      "sqlite_int_ok (c_total_engagements c)"
  shows "\<exists>s2. import_row L s row = Inr s2
      \<and> posts (i_store s2) =
          insort_key p_id (post_of_cleaned c aid)
            (filter (\<lambda>q. p_id q \<noteq> c_post_id c) (posts (i_store s)))
      \<and> filter (\<lambda>p. p_id p = c_post_id c) (posts (i_store s2)) = [post_of_cleaned c aid]
      \<and> authors (i_store s2) = authors (i_store s)"
proof -
  let ?ps = "insort_key p_id (post_of_cleaned c aid)
            (filter (\<lambda>q. p_id q \<noteq> c_post_id c) (posts (i_store s)))"
  have ra: "resolve_author c (s\<lparr>i_stats := sts\<rparr>) = Inr (s\<lparr>i_stats := sts\<rparr>)"
    using e by (simp add: resolve_author_def)
  have ip: "insert_or_replace_post (i_store s) (post_of_cleaned c aid)
          = Inr ((i_store s)\<lparr>posts := ?ps\<rparr>)"
    using ok by (simp add: insert_or_replace_post_def post_of_cleaned_def)
  have i: "import_row L s row
          = Inr (store_tags c (s\<lparr>i_stats := sts\<rparr>) ((i_store s)\<lparr>posts := ?ps\<rparr>))"
    using e by (simp add: import_row_eq cr ra ip bind_exc_def)
  have p: "posts (i_store (store_tags c (s\<lparr>i_stats := sts\<rparr>) ((i_store s)\<lparr>posts := ?ps\<rparr>))) = ?ps"
    by (simp add: store_tags_def)
  have f: "filter (\<lambda>p. p_id p = c_post_id c)
             (posts (i_store (store_tags c (s\<lparr>i_stats := sts\<rparr>) ((i_store s)\<lparr>posts := ?ps\<rparr>))))
           = [post_of_cleaned c aid]"
    unfolding p by (rule filter_insort_key_same) (rule p_id_post_of_cleaned)
  have a: "authors (i_store (store_tags c (s\<lparr>i_stats := sts\<rparr>) ((i_store s)\<lparr>posts := ?ps\<rparr>)))
           = authors (i_store s)"
    by (simp add: store_tags_def)
  from i p f a show ?thesis by (intro exI conjI)
qed

lemma find_append_new:
  "k \<notin> f ` set xs \<Longrightarrow> f x = k \<Longrightarrow> find (\<lambda>a. f a = k) (xs @ [x]) = Some x"
  by (induction xs) auto

lemma import_row_new_author:
  assumes cr: "clean_row L (i_stats s) row = Inr (c, sts)"
    and e: "c_email c = Some e" "e \<noteq> []" "authors_cache s e = None"
      "e \<notin> a_email ` set (authors (i_store s))"
    and n: "c_first_name c = Some f" "c_last_name c = Some l"
    and ok: "sqlite_int_ok (c_follower_count c)" "sqlite_int_ok (c_verified c)"
      "sqlite_int_ok (c_post_id c)" "sqlite_int_ok (author_seq (i_store s) + 1)"
      "sqlite_int_ok (c_likes c)"
      "sqlite_int_ok (c_comments c)" "sqlite_int_ok (c_shares c)"
      "sqlite_int_ok (c_total_engagements c)"
  shows "\<exists>s2. import_row L s row = Inr s2
      \<and> posts (i_store s2) =
          insort_key p_id (post_of_cleaned c (author_seq (i_store s) + 1))
            (filter (\<lambda>q. p_id q \<noteq> c_post_id c) (posts (i_store s)))
      \<and> filter (\<lambda>p. p_id p = c_post_id c) (posts (i_store s2))
          = [post_of_cleaned c (author_seq (i_store s) + 1)]
      \<and> map a_email (authors (i_store s2)) = map a_email (authors (i_store s)) @ [e]"
proof -
  let ?aid = "author_seq (i_store s) + 1"
  let ?ps = "insort_key p_id (post_of_cleaned c ?aid)
            (filter (\<lambda>q. p_id q \<noteq> c_post_id c) (posts (i_store s)))"
  obtain s1 where ra: "resolve_author c (s\<lparr>i_stats := sts\<rparr>) = Inr s1"
    and s1: "authors_cache s1 e = Some ?aid" "posts (i_store s1) = posts (i_store s)"
      "map a_email (authors (i_store s1)) = map a_email (authors (i_store s)) @ [e]"
    using e n ok(1,2)
    by (simp add: resolve_author_def insert_or_ignore_author_def bind_exc_def
        select_author_id_def find_append_new)
  have ip: "insert_or_replace_post (i_store s1) (post_of_cleaned c ?aid)
          = Inr ((i_store s1)\<lparr>posts := ?ps\<rparr>)"
    using ok s1(2) by (simp add: insert_or_replace_post_def post_of_cleaned_def)
  have i: "import_row L s row
          = Inr (store_tags c s1 ((i_store s1)\<lparr>posts := ?ps\<rparr>))"
    using e s1(1) by (simp add: import_row_eq cr ra ip bind_exc_def)
  have p: "posts (i_store (store_tags c s1 ((i_store s1)\<lparr>posts := ?ps\<rparr>))) = ?ps"
    by (simp add: store_tags_def)
  have f: "filter (\<lambda>p. p_id p = c_post_id c)
             (posts (i_store (store_tags c s1 ((i_store s1)\<lparr>posts := ?ps\<rparr>))))
           = [post_of_cleaned c ?aid]"
    unfolding p by (rule filter_insort_key_same) (rule p_id_post_of_cleaned)
  have a: "map a_email (authors (i_store (store_tags c s1 ((i_store s1)\<lparr>posts := ?ps\<rparr>))))
           = map a_email (authors (i_store s)) @ [e]"
    using s1(3) by (simp add: store_tags_def)
  from i p f a show ?thesis by (intro exI conjI)
qed

lemma changed_row_cleaned:
  assumes "json_loads L ''[\"#a\",\"#a\",\"#b\"]'' = Inr (JArr [JStr ''#a'', JStr ''#a'', JStr ''#b''])"
      and "float_literal L ''1'' = Some (Finite 1)"
  shows "\<exists>c sts1. clean_row L sts changed_row = Inr (c, sts1)
      \<and> c_email c = Some ''ann@example.com''
      \<and> c_post_id c = 1 \<and> c_likes c = 0 \<and> c_comments c = 0 \<and> c_shares c = 0
      \<and> c_total_engagements c = 0 \<and> c_post_text c = Some ''Changed''"
proof -
  have pid: "clean_integer L (PyStr ''1'') = Inr 1"
    using assms(2)
    by (simp add: clean_integer_def py_float_def py_strip_def is_space_def num_strip_def
        is_num_space_def ascii_lower_def
        int_of_float_def Let_def)
  have z: "clean_integer L (PyStr []) = Inr 0" by (simp add: clean_integer_def)
  have st: "py_strip ''#a'' = ''#a''" "py_strip ''#b'' = ''#b''"
    by (simp_all add: py_strip_def is_space_def)
  have tags: "parse_tags L (PyStr ''[\"#a\",\"#a\",\"#b\"]'') = Inr [''#a'', ''#b'']"
    using assms(1) by (simp add: parse_tags_def str_json_def st Let_def)
  show ?thesis
    by (simp add: clean_row_def bind_exc_def changed_row_def dup_row_def row_get_def pid z tags
        dup_row_normalized Let_def)
qed

lemma store_inv_one_author: "store_inv one_author_store"
  by (simp add: store_inv_def tags_distinct_def tags_refer_def post_ids_distinct_def
      emails_distinct_def one_author_store_def)

lemma store_inv_empty: "store_inv empty_store"
  by (simp add: store_inv_def tags_distinct_def tags_refer_def post_ids_distinct_def
      emails_distinct_def empty_store_def)

lemma create_post_tags_stored:
  "authorEmail data = Some ''ann@example.com'' \<Longrightarrow> content data = Some ''Hello'' \<Longrightarrow>
   b_tags data = Some ts \<Longrightarrow>
   \<exists>st'. db (snd (create_post now \<lparr>db = Some one_author_store, open_conns = 0\<rparr> data)) = Some st'
      \<and> post_tags st' = map (Pair 1) ts"
  by (simp add: create_post_def Let_def get_db_connection_def conn_close_def
      one_author_store_def select_author_id_def select_max_id_def insert_post_def
      sqlite_int_ok_def post_tags_insert_all_tags)

text \<open>
  C3 (as amended). The invariant of the store (no (post id, tag) pair stored twice, every
  tag row referring to a post, no two posts with one id, no two authors with one email) is
  preserved by importing a row whose post id has no tag rows in the store yet, by creating
  a post through the API and by updating a post through the API when the tag list of the
  request holds no duplicate, and by deleting a post. Importing any row keeps the post ids
  and the author emails distinct. An imported row whose author is resolved (its email is
  in \<^verbatim>\<open>authors_cache\<close> after step 1 of the loop) replaces the post row of its id: the
  posts afterwards are the posts before without that id, with the post of the row
  inserted, so that exactly one post row has the id and it carries the fields of the row;
  a row whose author is not resolved leaves the posts as they are. When the email of the
  row is in \<^verbatim>\<open>authors_cache\<close> already (the author of a row imported before) and the
  integers of the row fit 64 bits, the import of the row succeeds, replaces the post and
  leaves the author rows as they are; when the email is new, the names are present and
  the integers fit, it succeeds, replaces the post and adds the one author row.
\<close>

theorem store_invariant_steps:
  "(store_inv (i_store s) \<and> import_row L s row = Inr s'
      \<and> (\<forall>c sts. clean_row L (i_stats s) row = Inr (c, sts)
             \<longrightarrow> c_post_id c \<notin> fst ` set (post_tags (i_store s)))
    \<longrightarrow> store_inv (i_store s'))
   \<and> (post_ids_distinct (i_store s) \<and> emails_distinct (i_store s) \<and> import_row L s row = Inr s'
    \<longrightarrow> post_ids_distinct (i_store s') \<and> emails_distinct (i_store s'))
   \<and> (import_row L s row = Inr s'
    \<longrightarrow> (\<exists>c sts. clean_row L (i_stats s) row = Inr (c, sts)
          \<and> (case (case c_email c of None \<Rightarrow> None | Some e \<Rightarrow> authors_cache s' e) of
               None \<Rightarrow> posts (i_store s') = posts (i_store s)
             | Some aid \<Rightarrow>
                 posts (i_store s') =
                   insort_key p_id (post_of_cleaned c aid)
                     (filter (\<lambda>q. p_id q \<noteq> c_post_id c) (posts (i_store s)))
                 \<and> filter (\<lambda>p. p_id p = c_post_id c) (posts (i_store s'))
                     = [post_of_cleaned c aid])))
   \<and> (clean_row L (i_stats s) row = Inr (rc, rsts) \<and> c_email rc = Some e
      \<and> authors_cache s e = Some aid
      \<and> sqlite_int_ok (c_post_id rc) \<and> sqlite_int_ok aid \<and> sqlite_int_ok (c_likes rc)
      \<and> sqlite_int_ok (c_comments rc) \<and> sqlite_int_ok (c_shares rc)
      \<and> sqlite_int_ok (c_total_engagements rc)
    \<longrightarrow> (\<exists>s2. import_row L s row = Inr s2
          \<and> posts (i_store s2) =
              insort_key p_id (post_of_cleaned rc aid)
                (filter (\<lambda>q. p_id q \<noteq> c_post_id rc) (posts (i_store s)))
          \<and> filter (\<lambda>p. p_id p = c_post_id rc) (posts (i_store s2)) = [post_of_cleaned rc aid]
          \<and> authors (i_store s2) = authors (i_store s)))
   \<and> (clean_row L (i_stats s) row = Inr (rc, rsts) \<and> c_email rc = Some e \<and> e \<noteq> []
      \<and> authors_cache s e = None \<and> e \<notin> a_email ` set (authors (i_store s))
      \<and> c_first_name rc = Some fname \<and> c_last_name rc = Some lname
      \<and> sqlite_int_ok (c_follower_count rc) \<and> sqlite_int_ok (c_verified rc)
      \<and> sqlite_int_ok (c_post_id rc) \<and> sqlite_int_ok (author_seq (i_store s) + 1)
      \<and> sqlite_int_ok (c_likes rc) \<and> sqlite_int_ok (c_comments rc)
      \<and> sqlite_int_ok (c_shares rc) \<and> sqlite_int_ok (c_total_engagements rc)
    \<longrightarrow> (\<exists>s2. import_row L s row = Inr s2
          \<and> posts (i_store s2) =
              insort_key p_id (post_of_cleaned rc (author_seq (i_store s) + 1))
                (filter (\<lambda>q. p_id q \<noteq> c_post_id rc) (posts (i_store s)))
          \<and> filter (\<lambda>p. p_id p = c_post_id rc) (posts (i_store s2))
              = [post_of_cleaned rc (author_seq (i_store s) + 1)]
          \<and> map a_email (authors (i_store s2)) = map a_email (authors (i_store s)) @ [e]))
   \<and> (db w = Some st \<and> store_inv st \<and> (\<forall>ts. b_tags cdata = Some ts \<longrightarrow> distinct ts)
      \<and> db (snd (create_post now w cdata)) = Some st1
    \<longrightarrow> store_inv st1)
   \<and> (db w = Some st \<and> store_inv st \<and> (\<forall>ts. u_tags udata = Some ts \<longrightarrow> distinct ts)
      \<and> db (snd (update_post w pid udata)) = Some st2
    \<longrightarrow> store_inv st2)
   \<and> (db w = Some st \<and> store_inv st \<and> db (snd (delete_post w pid)) = Some st3
    \<longrightarrow> store_inv st3)"
proof (intro conjI impI)
  assume "store_inv (i_store s) \<and> import_row L s row = Inr s'
      \<and> (\<forall>c sts. clean_row L (i_stats s) row = Inr (c, sts)
             \<longrightarrow> c_post_id c \<notin> fst ` set (post_tags (i_store s)))"
  then show "store_inv (i_store s')" using import_row_inv by blast
next
  assume a: "post_ids_distinct (i_store s) \<and> emails_distinct (i_store s) \<and> import_row L s row = Inr s'"
  then show "post_ids_distinct (i_store s')" using import_row_ids_distinct by blast
  from a show "emails_distinct (i_store s')" using import_row_store(2) by blast
next
  assume "import_row L s row = Inr s'"
  then show "\<exists>c sts. clean_row L (i_stats s) row = Inr (c, sts)
          \<and> (case (case c_email c of None \<Rightarrow> None | Some e \<Rightarrow> authors_cache s' e) of
               None \<Rightarrow> posts (i_store s') = posts (i_store s)
             | Some aid \<Rightarrow>
                 posts (i_store s') =
                   insort_key p_id (post_of_cleaned c aid)
                     (filter (\<lambda>q. p_id q \<noteq> c_post_id c) (posts (i_store s)))
                 \<and> filter (\<lambda>p. p_id p = c_post_id c) (posts (i_store s'))
                     = [post_of_cleaned c aid])"
    by (rule import_row_posts)
next
  assume a: "clean_row L (i_stats s) row = Inr (rc, rsts) \<and> c_email rc = Some e
      \<and> authors_cache s e = Some aid
      \<and> sqlite_int_ok (c_post_id rc) \<and> sqlite_int_ok aid \<and> sqlite_int_ok (c_likes rc)
      \<and> sqlite_int_ok (c_comments rc) \<and> sqlite_int_ok (c_shares rc)
      \<and> sqlite_int_ok (c_total_engagements rc)"
  show "\<exists>s2. import_row L s row = Inr s2
          \<and> posts (i_store s2) =
              insort_key p_id (post_of_cleaned rc aid)
                (filter (\<lambda>q. p_id q \<noteq> c_post_id rc) (posts (i_store s)))
          \<and> filter (\<lambda>p. p_id p = c_post_id rc) (posts (i_store s2)) = [post_of_cleaned rc aid]
          \<and> authors (i_store s2) = authors (i_store s)"
    by (rule import_row_cached [where e = e and sts = rsts]) (simp_all add: a)
next
  assume a: "clean_row L (i_stats s) row = Inr (rc, rsts) \<and> c_email rc = Some e \<and> e \<noteq> []
      \<and> authors_cache s e = None \<and> e \<notin> a_email ` set (authors (i_store s))
      \<and> c_first_name rc = Some fname \<and> c_last_name rc = Some lname
      \<and> sqlite_int_ok (c_follower_count rc) \<and> sqlite_int_ok (c_verified rc)
      \<and> sqlite_int_ok (c_post_id rc) \<and> sqlite_int_ok (author_seq (i_store s) + 1)
      \<and> sqlite_int_ok (c_likes rc) \<and> sqlite_int_ok (c_comments rc)
      \<and> sqlite_int_ok (c_shares rc) \<and> sqlite_int_ok (c_total_engagements rc)"
  show "\<exists>s2. import_row L s row = Inr s2
          \<and> posts (i_store s2) =
              insort_key p_id (post_of_cleaned rc (author_seq (i_store s) + 1))
                (filter (\<lambda>q. p_id q \<noteq> c_post_id rc) (posts (i_store s)))
          \<and> filter (\<lambda>p. p_id p = c_post_id rc) (posts (i_store s2))
              = [post_of_cleaned rc (author_seq (i_store s) + 1)]
          \<and> map a_email (authors (i_store s2)) = map a_email (authors (i_store s)) @ [e]"
    by (rule import_row_new_author [where f = fname and l = lname and sts = rsts])
      (simp_all add: a)
next
  assume "db w = Some st \<and> store_inv st \<and> (\<forall>ts. b_tags cdata = Some ts \<longrightarrow> distinct ts)
      \<and> db (snd (create_post now w cdata)) = Some st1"
  then show "store_inv st1" using create_post_inv by blast
next
  assume "db w = Some st \<and> store_inv st \<and> (\<forall>ts. u_tags udata = Some ts \<longrightarrow> distinct ts)
      \<and> db (snd (update_post w pid udata)) = Some st2"
  then show "store_inv st2" using update_post_inv by blast
next
  assume "db w = Some st \<and> store_inv st \<and> db (snd (delete_post w pid)) = Some st3"
  then show "store_inv st3" using delete_post_inv by blast
qed

text \<open>
  The claim as stated has every operation preserve the invariant. \<^verbatim>\<open>create_post\<close> stores
  the tags of the request as they come: a request whose tag list is \<^verbatim>\<open>["#a", "#a"]\<close>
  takes a store that satisfies the invariant to one that holds the pair \<^verbatim>\<open>(1, "#a")\<close>
  twice.
\<close>

theorem store_invariant_counterexample:
  "store_inv one_author_store
   \<and> map_option post_tags
        (db (snd (create_post ''2026-01-01 00:00:00''
                    \<lparr>db = Some one_author_store, open_conns = 0\<rparr> same_tag_twice_body)))
      = Some [(1, ''#a''), (1, ''#a'')]
   \<and> map_option tags_distinct
        (db (snd (create_post ''2026-01-01 00:00:00''
                    \<lparr>db = Some one_author_store, open_conns = 0\<rparr> same_tag_twice_body)))
      = Some False"
proof -
  have "\<exists>st'. db (snd (create_post ''2026-01-01 00:00:00''
                        \<lparr>db = Some one_author_store, open_conns = 0\<rparr> same_tag_twice_body))
             = Some st' \<and> post_tags st' = map (Pair 1) [''#a'', ''#a'']"
    by (rule create_post_tags_stored) (simp_all add: same_tag_twice_body_def two_tags_body_def)
  then obtain st' where "db (snd (create_post ''2026-01-01 00:00:00''
                        \<lparr>db = Some one_author_store, open_conns = 0\<rparr> same_tag_twice_body))
             = Some st'" and t: "post_tags st' = [(1, ''#a''), (1, ''#a'')]"
    by auto
  moreover from t have "\<not> tags_distinct st'" by (simp add: tags_distinct_def)
  ultimately show ?thesis using store_inv_one_author by simp
qed

theorem store_invariant_witness:
  "store_inv one_author_store
   \<and> (\<exists>st'. db (snd (create_post ''2026-01-01 00:00:00''
                        \<lparr>db = Some one_author_store, open_conns = 0\<rparr> two_tags_body))
             = Some st'
          \<and> post_tags st' = [(1, ''#a''), (1, ''#b'')] \<and> store_inv st')
   \<and> store_inv empty_store
   \<and> (\<exists>s1. import_row example_lib state0 dup_row = Inr s1
          \<and> post_tags (i_store s1) = [(1, ''#a''), (1, ''#b'')] \<and> store_inv (i_store s1)
          \<and> map p_id (posts (i_store s1)) = [1]
          \<and> map p_text (posts (i_store s1)) = [Some ''Hello'']
          \<and> map a_email (authors (i_store s1)) = [''ann@example.com'']
          \<and> (\<exists>s2. import_row example_lib s1 changed_row = Inr s2
                \<and> map p_id (posts (i_store s2)) = [1]
                \<and> map p_text (posts (i_store s2)) = [Some ''Changed'']
                \<and> map a_email (authors (i_store s2)) = [''ann@example.com'']))"
proof -
  let ?now = "''2026-01-01 00:00:00''"
  let ?w = "\<lparr>db = Some one_author_store, open_conns = 0\<rparr>"
  have "\<exists>st'. db (snd (create_post ?now ?w two_tags_body)) = Some st'
           \<and> post_tags st' = map (Pair 1) [''#a'', ''#b'']"
    by (rule create_post_tags_stored) (simp_all add: two_tags_body_def)
  then obtain st' where c: "db (snd (create_post ?now ?w two_tags_body)) = Some st'"
    and t: "post_tags st' = [(1, ''#a''), (1, ''#b'')]"
    by auto
  have d: "\<forall>ts. b_tags two_tags_body = Some ts \<longrightarrow> distinct ts"
    by (simp add: two_tags_body_def)
  have w: "db ?w = Some one_author_store" by simp
  have 1: "store_inv st'"
    by (rule store_invariant_steps [THEN conjunct2, THEN conjunct2, THEN conjunct2,
          THEN conjunct2, THEN conjunct2, THEN conjunct1, THEN mp,
          OF conjI [OF w conjI [OF store_inv_one_author conjI [OF d c]]]])
  have l1: "json_loads example_lib ''[\"#a\",\"#a\",\"#b\"]''
             = Inr (JArr [JStr ''#a'', JStr ''#a'', JStr ''#b''])"
    by (simp add: example_lib_def)
  have l2: "float_literal example_lib ''1'' = Some (Finite 1)"
    by (simp add: example_lib_def)
  from import_dup_row [OF l1 l2] obtain s1 where
    i: "import_row example_lib state0 dup_row = Inr s1"
    and it: "post_tags (i_store s1) = [(1, ''#a''), (1, ''#b'')]"
    and ids: "map p_id (posts (i_store s1)) = [1]"
    and em: "map a_email (authors (i_store s1)) = [''ann@example.com'']"
    and cache: "authors_cache s1 ''ann@example.com'' = Some 1"
    and tx: "map p_text (posts (i_store s1)) = [Some ''Hello'']"
    by auto
  have fr: "\<forall>c sts. clean_row example_lib (i_stats state0) dup_row = Inr (c, sts)
             \<longrightarrow> c_post_id c \<notin> fst ` set (post_tags (i_store state0))"
    by (simp add: state0_def empty_store_def)
  have e0: "store_inv (i_store state0)" using store_inv_empty by (simp add: state0_def)
  have 2: "store_inv (i_store s1)"
    by (rule store_invariant_steps [THEN conjunct1, THEN mp, OF conjI [OF e0 conjI [OF i fr]]])
  from changed_row_cleaned [OF l1 l2, of "i_stats s1"] obtain rc rsts where
    cr: "clean_row example_lib (i_stats s1) changed_row = Inr (rc, rsts)"
    and f: "c_email rc = Some ''ann@example.com''" "c_post_id rc = 1" "c_likes rc = 0"
      "c_comments rc = 0" "c_shares rc = 0" "c_total_engagements rc = 0"
      "c_post_text rc = Some ''Changed''"
    by auto
  have ok: "sqlite_int_ok (c_post_id rc)" "sqlite_int_ok 1" "sqlite_int_ok (c_likes rc)"
      "sqlite_int_ok (c_comments rc)" "sqlite_int_ok (c_shares rc)"
      "sqlite_int_ok (c_total_engagements rc)"
    by (simp_all add: f sqlite_int_ok_def)
  have hyp: "clean_row example_lib (i_stats s1) changed_row = Inr (rc, rsts)
      \<and> c_email rc = Some ''ann@example.com''
      \<and> authors_cache s1 ''ann@example.com'' = Some 1
      \<and> sqlite_int_ok (c_post_id rc) \<and> sqlite_int_ok 1 \<and> sqlite_int_ok (c_likes rc)
      \<and> sqlite_int_ok (c_comments rc) \<and> sqlite_int_ok (c_shares rc)
      \<and> sqlite_int_ok (c_total_engagements rc)"
    using cr f(1) cache ok by (intro conjI)
  have "\<exists>s2. import_row example_lib s1 changed_row = Inr s2
          \<and> posts (i_store s2) =
              insort_key p_id (post_of_cleaned rc 1)
                (filter (\<lambda>q. p_id q \<noteq> c_post_id rc) (posts (i_store s1)))
          \<and> filter (\<lambda>p. p_id p = c_post_id rc) (posts (i_store s2)) = [post_of_cleaned rc 1]
          \<and> authors (i_store s2) = authors (i_store s1)"
    by (rule store_invariant_steps [THEN conjunct2, THEN conjunct2, THEN conjunct2,
          THEN conjunct1, THEN mp, OF hyp])
  then obtain s2 where
    i2: "import_row example_lib s1 changed_row = Inr s2"
    and p2: "posts (i_store s2) =
              insort_key p_id (post_of_cleaned rc 1)
                (filter (\<lambda>q. p_id q \<noteq> c_post_id rc) (posts (i_store s1)))"
    and a2: "authors (i_store s2) = authors (i_store s1)"
    by (elim exE conjE)
  obtain q where q: "posts (i_store s1) = [q]" "p_id q = 1"
    using ids by (cases "posts (i_store s1)") auto
  have p2': "posts (i_store s2) = [post_of_cleaned rc 1]"
    unfolding p2 by (simp add: q f(2))
  have r1: "map p_id (posts (i_store s2)) = [1]"
    unfolding p2' by (simp add: post_of_cleaned_def f(2))
  have r2: "map p_text (posts (i_store s2)) = [Some ''Changed'']"
    unfolding p2' by (simp add: post_of_cleaned_def f(7))
  have r3: "map a_email (authors (i_store s2)) = [''ann@example.com'']"
    unfolding a2 by (rule em)
  have a: "\<exists>st'. db (snd (create_post ?now ?w two_tags_body)) = Some st'
          \<and> post_tags st' = [(1, ''#a''), (1, ''#b'')] \<and> store_inv st'"
    using c t 1 by (intro exI [of _ st'] conjI)
  have b2: "\<exists>s2. import_row example_lib s1 changed_row = Inr s2
                \<and> map p_id (posts (i_store s2)) = [1]
                \<and> map p_text (posts (i_store s2)) = [Some ''Changed'']
                \<and> map a_email (authors (i_store s2)) = [''ann@example.com'']"
    using i2 r1 r2 r3 by (intro exI [of _ s2] conjI)
  have b: "\<exists>s1. import_row example_lib state0 dup_row = Inr s1
          \<and> post_tags (i_store s1) = [(1, ''#a''), (1, ''#b'')] \<and> store_inv (i_store s1)
          \<and> map p_id (posts (i_store s1)) = [1]
          \<and> map p_text (posts (i_store s1)) = [Some ''Hello'']
          \<and> map a_email (authors (i_store s1)) = [''ann@example.com'']
          \<and> (\<exists>s2. import_row example_lib s1 changed_row = Inr s2
                \<and> map p_id (posts (i_store s2)) = [1]
                \<and> map p_text (posts (i_store s2)) = [Some ''Changed'']
                \<and> map a_email (authors (i_store s2)) = [''ann@example.com''])"
  proof (rule exI [of _ s1])
    from i it 2 ids tx em b2
    show "import_row example_lib state0 dup_row = Inr s1
          \<and> post_tags (i_store s1) = [(1, ''#a''), (1, ''#b'')] \<and> store_inv (i_store s1)
          \<and> map p_id (posts (i_store s1)) = [1]
          \<and> map p_text (posts (i_store s1)) = [Some ''Hello'']
          \<and> map a_email (authors (i_store s1)) = [''ann@example.com'']
          \<and> (\<exists>s2. import_row example_lib s1 changed_row = Inr s2
                \<and> map p_id (posts (i_store s2)) = [1]
                \<and> map p_text (posts (i_store s2)) = [Some ''Changed'']
                \<and> map a_email (authors (i_store s2)) = [''ann@example.com''])"
      by (intro conjI)
  qed
  from store_inv_one_author a store_inv_empty b show ?thesis by (intro conjI)
qed

end
